theory Spec2Isabelle
  imports Complex_Main "HOL-Library.Word"
begin

section \<open>The public data model (pdf-filler.h)\<close>

text \<open>
  The enum \<open>FieldType\<close> and the struct \<open>PdfFormField\<close>. A \<open>std::string\<close> is a
  \<open>string\<close>, a C++ \<open>int\<close> is an \<open>int\<close> (no operation of the program leaves the 32-bit
  range: the only arithmetic is one page number minus or plus one), a \<open>double\<close> is a
  \<open>real\<close> (coordinates and the resolution are only copied and subtracted, and no property
  below depends on rounding). The members \<open>value\<close>, \<open>x\<close> and \<open>y\<close> carry a prime, and
  so does every member the source writes with a trailing underscore.
\<close>

datatype FieldType = Unknown | Text | Button | Checkbox | Radio | Choice | Signature

record PdfFormField =
  name :: string
  fullName :: string
  value' :: string
  defaultValue :: string
  type :: FieldType
  readOnly :: bool
  required :: bool
  pageIndex :: int
  x' :: real
  y' :: real
  width :: real
  height :: real
  options :: "string list"
  exportValue :: string
  isChecked :: bool

text \<open>The default member initialisers of the struct.\<close>

definition newPdfFormField :: PdfFormField where
  "newPdfFormField =
     \<lparr>name = '''', fullName = '''', value' = '''', defaultValue = '''', type = Unknown,
      readOnly = False, required = False, pageIndex = 0,
      x' = 0, y' = 0, width = 0, height = 0,
      options = [], exportValue = '''', isChecked = False\<rparr>"

section \<open>The object model of the document library\<close>

text \<open>
  The program reaches the document through pointers into the library's object model:
  \<open>::FormField*\<close> for field nodes, \<open>FormWidget*\<close> for widgets. A pointer is an
  \<open>addr option\<close> (\<open>None\<close> the null pointer); the nodes of a document live in a store
  from addresses to nodes, owned by the document. A node's data are the values of the
  accessors the program calls on it (\<open>getPartialName\<close>, \<open>getFullyQualifiedName\<close>,
  \<open>isReadOnly\<close>, \<open>getNumWidgets\<close>/\<open>getWidget\<close>, \<open>getNumChildren\<close>/\<open>getChildren\<close>), and
  a tagged part for the subclass the program casts to after testing \<open>getType()\<close>.
\<close>

type_synonym addr = nat
type_synonym GooString = string
type_synonym bytes = "8 word list"

datatype FormFieldType = formButton | formText | formChoice | formSignature | formUndef

datatype FormButtonType = formButtonCheck | formButtonPush | formButtonRadio

datatype PDFWriteMode = writeStandard | writeForceRewrite | writeForceIncremental

record FormWidget =
  rect :: "real \<times> real \<times> real \<times> real"
  pageNum :: int
  widgetType :: FormFieldType
  onStr :: "string option"

datatype FieldData =
    TextData "GooString option"
  | ChoiceData "GooString option list" "nat list"
  | ButtonData FormButtonType string
  | SignatureData
  | UndefData

record FormField =
  partialName :: "GooString option"
  fullyQualifiedName :: "GooString option"
  readOnlyFlag :: bool
  widgets :: "FormWidget option list"
  children :: "addr option list"
  fieldData :: FieldData

type_synonym Form = "addr option list"
type_synonym Catalog = "Form option"

record PDFDoc =
  nodes :: "addr \<Rightarrow> FormField option"
  catalog :: "Catalog option"
  numPages :: int
  docInfo :: "(string \<Rightarrow> GooString option) option"

record SplashBitmap =
  bmWidth :: nat
  bmHeight :: nat
  bmRowSize :: nat
  bmData :: bytes

fun getType :: "FormField \<Rightarrow> FormFieldType" where
  "getType f =
     (case fieldData f of
        TextData c \<Rightarrow> formText
      | ChoiceData cs sel \<Rightarrow> formChoice
      | ButtonData bt st \<Rightarrow> formButton
      | SignatureData \<Rightarrow> formSignature
      | UndefData \<Rightarrow> formUndef)"

text \<open>
  The accessors of the subclasses: \<open>getNumChoices\<close> and \<open>getChoice\<close> of a choice field
  (an option may be absent: the program tests the pointer), \<open>getButtonType\<close> and the state
  name of a button field.
\<close>

fun getNumChoices :: "FormField \<Rightarrow> nat" where
  "getNumChoices f = (case fieldData f of ChoiceData cs sel \<Rightarrow> length cs | _ \<Rightarrow> 0)"

fun getChoice :: "FormField \<Rightarrow> nat \<Rightarrow> GooString option" where
  "getChoice f i =
     (case fieldData f of
        ChoiceData cs sel \<Rightarrow> (if i < length cs then cs ! i else None)
      | _ \<Rightarrow> None)"

fun getButtonType :: "FormField \<Rightarrow> FormButtonType" where
  "getButtonType f = (case fieldData f of ButtonData bt st \<Rightarrow> bt | _ \<Rightarrow> formButtonPush)"

fun getAppearanceState :: "FormField \<Rightarrow> string" where
  "getAppearanceState f = (case fieldData f of ButtonData bt st \<Rightarrow> st | _ \<Rightarrow> '''')"

text \<open>
  Modelled from the spec: \<open>FormFieldText::setContentCopy\<close> of the object model, which is not
  part of this repository. Section 4.3: the text setter "replaces content". Names, widgets
  and children of the node stay as they are.
\<close>

fun setContentCopy :: "GooString \<Rightarrow> FormField \<Rightarrow> FormField" where
  "setContentCopy g f = f\<lparr>fieldData := TextData (Some g)\<rparr>"

text \<open>
  Modelled from the spec: \<open>FormFieldChoice::getNumSelected\<close> and \<open>getSelectedChoice\<close> of the
  object model, which are not part of this repository. Section 4.2: "if the node reports
  at least one selected index, decode the selected choice's label".
\<close>

fun getNumSelected :: "FormField \<Rightarrow> nat" where
  "getNumSelected f = (case fieldData f of ChoiceData cs sel \<Rightarrow> length sel | _ \<Rightarrow> 0)"

fun getSelectedChoice :: "FormField \<Rightarrow> GooString option" where
  "getSelectedChoice f =
     (case fieldData f of
        ChoiceData cs sel \<Rightarrow>
          (case sel of [] \<Rightarrow> None | i # _ \<Rightarrow> (if i < length cs then cs ! i else None))
      | _ \<Rightarrow> None)"

text \<open>
  Modelled from the spec: \<open>FormFieldChoice::select\<close> of the object model, which is not part
  of this repository. Section 4.3: the choice setter finds the matching index and "selects
  that index". The options, names, widgets and children of the node stay as they are.
\<close>

fun select :: "nat \<Rightarrow> FormField \<Rightarrow> FormField" where
  "select i f =
     (case fieldData f of
        ChoiceData cs sel \<Rightarrow> f\<lparr>fieldData := ChoiceData cs [i]\<rparr>
      | _ \<Rightarrow> f)"

text \<open>
  Modelled from the spec: \<open>FormFieldButton::setState\<close> of the object model, which is not
  part of this repository. Section 4.3: the checkbox setter "sets the node's state to that
  label or to the canonical off label". The button type, names, widgets and children of
  the node stay as they are.
\<close>

fun setState :: "string \<Rightarrow> FormField \<Rightarrow> FormField" where
  "setState newState f =
     (case fieldData f of
        ButtonData bt st \<Rightarrow> f\<lparr>fieldData := ButtonData bt newState\<rparr>
      | _ \<Rightarrow> f)"

text \<open>
  The collaborators whose results the program only passes on are parameters: the text
  codec (\<open>TextStringToUtf8\<close>, \<open>utf8ToUtf16WithBom\<close>), the parser behind the \<open>PDFDoc\<close>
  constructor (an error code, or the document), what \<open>buttonField->getState(0)\<close> answers
  for a button node, the writer behind \<open>saveAs\<close> (its error code, and the bytes of the
  staging file when it can be read back), the rasteriser (the bitmap of a page, or none),
  the PNG encoder (the encoded bytes, or none when the encoder fails at any stage), and the
  file system read of \<open>loadFromFile\<close>.
\<close>

record poppler =
  TextStringToUtf8 :: "string \<Rightarrow> string"
  utf8ToUtf16WithBom :: "string \<Rightarrow> string"
  newPDFDoc :: "bytes \<Rightarrow> GooString option \<Rightarrow> GooString option \<Rightarrow> int + PDFDoc"
  getState :: "FormField \<Rightarrow> bool"
  saveAs :: "PDFDoc \<Rightarrow> PDFWriteMode \<Rightarrow> int \<times> bytes option"
  displayPage :: "PDFDoc \<Rightarrow> int \<Rightarrow> real \<Rightarrow> SplashBitmap option"
  writePng :: "nat \<Rightarrow> nat \<Rightarrow> bytes list \<Rightarrow> bytes option"
  readFile :: "string \<Rightarrow> bytes option"

section \<open>Helpers (pdf-filler.cpp, lines 37-55)\<close>

definition gooToStd :: "poppler \<Rightarrow> GooString option \<Rightarrow> string" where
  "gooToStd P gs = (case gs of None \<Rightarrow> '''' | Some g \<Rightarrow> TextStringToUtf8 P g)"

text \<open>\<open>std::to_string\<close> on an \<open>int\<close>: the decimal digits, with a minus sign.\<close>

function to_string_nat :: "nat \<Rightarrow> string" where
  "to_string_nat n =
     (if n < 10 then [char_of (48 + n)]
      else to_string_nat (n div 10) @ [char_of (48 + n mod 10)])"
  by pat_completeness auto
termination
  by (relation "measure (\<lambda>n. n)") auto

declare to_string_nat.simps [simp del]

definition to_string :: "int \<Rightarrow> string" where
  "to_string i = (if i < 0 then CHR ''-'' # to_string_nat (nat (- i)) else to_string_nat (nat i))"

text \<open>
  A \<open>for\<close> loop whose body may fail to return: the body runs on each element in order,
  threading the state, and the loop returns only if every run of the body does.
\<close>

fun forEach :: "('a \<Rightarrow> 's \<Rightarrow> 's option) \<Rightarrow> 'a list \<Rightarrow> 's \<Rightarrow> 's option" where
  "forEach body [] s = Some s"
| "forEach body (x # xs) s =
     (case body x s of None \<Rightarrow> None | Some s' \<Rightarrow> forEach body xs s')"

lemma forEach_mono [partial_function_mono]:
  assumes "\<And>x s. mono_option (\<lambda>f. B f x s)"
  shows "mono_option (\<lambda>f. forEach (B f) xs s)"
proof (induction xs arbitrary: s)
  case Nil
  show ?case by (simp add: option.const_mono)
next
  case (Cons x xs)
  have "mono_option (\<lambda>f. Option.bind (B f x s) (\<lambda>s'. forEach (B f) xs s'))"
    by (rule bind_mono) (rule assms, rule Cons.IH)
  moreover have "(\<lambda>f. forEach (B f) (x # xs) s)
      = (\<lambda>f. Option.bind (B f x s) (\<lambda>s'. forEach (B f) xs s'))"
    by (auto simp: fun_eq_iff split: option.splits)
  ultimately show ?case by simp
qed

section \<open>The session (class PdfDocument::Impl)\<close>

record Impl =
  doc' :: "PDFDoc option"
  originalData' :: bytes
  lastError' :: string
  cachedFields' :: "PdfFormField list"
  fieldMap' :: "string \<Rightarrow> addr option"
  fieldsCached' :: bool
  modified' :: bool

text \<open>The constructor: the default member initialisers.\<close>

definition newImpl :: Impl where
  "newImpl =
     \<lparr>doc' = None, originalData' = [], lastError' = '''', cachedFields' = [],
      fieldMap' = (\<lambda>k. None), fieldsCached' = False, modified' = False\<rparr>"

text \<open>
  A result \<open>None\<close> of an operation means that the call has no defined return: it never
  returns, or it reads through a pointer to a node that does not exist (any more).
  Reading the node behind a field pointer held by the session:
\<close>

definition deref :: "Impl \<Rightarrow> addr \<Rightarrow> FormField option" where
  "deref s a = (case doc' s of None \<Rightarrow> None | Some d \<Rightarrow> nodes d a)"

definition store :: "Impl \<Rightarrow> addr \<Rightarrow> FormField \<Rightarrow> Impl" where
  "store s a f =
     (case doc' s of
        None \<Rightarrow> s
      | Some d \<Rightarrow> s\<lparr>doc' := Some (d\<lparr>nodes := (nodes d)(a := Some f)\<rparr>)\<rparr>)"

subsection \<open>loadFromMemory, loadFromFile (lines 73-120)\<close>

definition loadFromMemory :: "poppler \<Rightarrow> Impl \<Rightarrow> bytes \<Rightarrow> string \<Rightarrow> bool \<times> Impl" where
  "loadFromMemory P s data password =
     (let s1 = s\<lparr>originalData' := data\<rparr>;
          ownerPw = (if password = [] then None else Some password);
          userPw = (if password = [] then None else Some password)
      in case newPDFDoc P (originalData' s1) ownerPw userPw of
           Inl code \<Rightarrow>
             (False, s1\<lparr>doc' := None,
                        lastError' := ''Failed to load PDF: error code '' @ to_string code\<rparr>)
         | Inr d \<Rightarrow>
             (True, s1\<lparr>doc' := Some d, fieldsCached' := False, modified' := False\<rparr>))"

definition loadFromFile :: "poppler \<Rightarrow> Impl \<Rightarrow> string \<Rightarrow> string \<Rightarrow> bool \<times> Impl" where
  "loadFromFile P s path password =
     (case readFile P path of
        None \<Rightarrow> (False, s\<lparr>lastError' := ''Failed to open file: '' @ path\<rparr>)
      | Some data \<Rightarrow> loadFromMemory P (s\<lparr>originalData' := data\<rparr>) data password)"

subsection \<open>getForm (lines 122-127)\<close>

definition getForm :: "Impl \<Rightarrow> Form option" where
  "getForm s =
     (case doc' s of
        None \<Rightarrow> None
      | Some d \<Rightarrow> (case catalog d of None \<Rightarrow> None | Some c \<Rightarrow> c))"

subsection \<open>collectFieldsRecursive (lines 163-264)\<close>

definition convertFieldType :: "FormFieldType \<Rightarrow> FieldType" where
  "convertFieldType t =
     (case t of
        formText \<Rightarrow> Text
      | formButton \<Rightarrow> Button
      | formChoice \<Rightarrow> Choice
      | formSignature \<Rightarrow> Signature
      | _ \<Rightarrow> Unknown)"

text \<open>Lines 172-178: the two names of the record of a terminal field.\<close>

definition fieldNames :: "poppler \<Rightarrow> FormField \<Rightarrow> PdfFormField \<Rightarrow> PdfFormField" where
  "fieldNames P field ff =
     (let ff1 = ff\<lparr>fullName := (case fullyQualifiedName field of
                                   Some g \<Rightarrow> gooToStd P (Some g) | None \<Rightarrow> '''')\<rparr>
      in ff1\<lparr>name := (case partialName field of
                         Some g \<Rightarrow> gooToStd P (Some g) | None \<Rightarrow> fullName ff1)\<rparr>)"

text \<open>Lines 180-186: the entries of the name index.\<close>

definition indexField ::
  "addr \<Rightarrow> PdfFormField \<Rightarrow> (string \<Rightarrow> addr option) \<Rightarrow> (string \<Rightarrow> addr option)" where
  "indexField a ff fieldMap =
     (let m1 = (if fullName ff \<noteq> [] then fieldMap(fullName ff := Some a) else fieldMap)
      in if name ff \<noteq> [] \<and> name ff \<noteq> fullName ff then m1(name ff := Some a) else m1)"

text \<open>Lines 188-240: type, flags and the value by type.\<close>

definition fieldValue :: "poppler \<Rightarrow> FormField \<Rightarrow> PdfFormField \<Rightarrow> PdfFormField" where
  "fieldValue P field ff =
     (let ff1 = ff\<lparr>type := convertFieldType (getType field)\<rparr>;
          ff2 = ff1\<lparr>readOnly := readOnlyFlag field\<rparr>
      in case fieldData field of
           TextData content \<Rightarrow>
             ff2\<lparr>value' := (case content of Some c \<Rightarrow> gooToStd P (Some c) | None \<Rightarrow> '''')\<rparr>
         | ChoiceData cs sel \<Rightarrow>
             (let ff3 = (if getNumSelected field > 0
                         then ff2\<lparr>value' := (case getSelectedChoice field of
                                                Some g \<Rightarrow> gooToStd P (Some g) | None \<Rightarrow> '''')\<rparr>
                         else ff2)
              in ff3\<lparr>options := options ff3 @
                        concat (map (\<lambda>c. case getChoice field c of
                                            Some g \<Rightarrow> [gooToStd P (Some g)] | None \<Rightarrow> [])
                                    [0 ..< getNumChoices field])\<rparr>)
         | ButtonData btnType st \<Rightarrow>
             (if btnType = formButtonCheck
              then ff2\<lparr>type := Checkbox, isChecked := getState P field\<rparr>
              else if btnType = formButtonRadio
              then ff2\<lparr>type := Radio, isChecked := getState P field\<rparr>
              else ff2\<lparr>type := Button\<rparr>)
         | SignatureData \<Rightarrow> ff2\<lparr>type := Signature\<rparr>
         | UndefData \<Rightarrow> ff2)"

text \<open>Lines 242-254: geometry and page from the first widget.\<close>

definition fieldGeometry :: "FormField \<Rightarrow> PdfFormField \<Rightarrow> PdfFormField" where
  "fieldGeometry field ff =
     (if length (widgets field) > 0
      then (case hd (widgets field) of
              None \<Rightarrow> ff
            | Some widget \<Rightarrow>
                (case rect widget of
                   (x1, y1, x2, y2) \<Rightarrow>
                     ff\<lparr>x' := x1, y' := y1, width := x2 - x1, height := y2 - y1,
                        pageIndex := pageNum widget - 1\<rparr>))
      else ff)"

definition buildField :: "poppler \<Rightarrow> FormField \<Rightarrow> PdfFormField" where
  "buildField P field = fieldGeometry field (fieldValue P field (fieldNames P field newPdfFormField))"

text \<open>
  The traversal itself. The recursion follows child pointers through the store with
  nothing that bounds it, so it is a partial function: \<open>None\<close> when the call does not
  return (or reads a node that does not exist).
\<close>

partial_function (option) collectFieldsRecursive ::
  "poppler \<Rightarrow> (addr \<Rightarrow> FormField option) \<Rightarrow> addr option \<Rightarrow>
   PdfFormField list \<times> (string \<Rightarrow> addr option) \<Rightarrow>
   (PdfFormField list \<times> (string \<Rightarrow> addr option)) option" where
  "collectFieldsRecursive P h field acc =
     (case field of
        None \<Rightarrow> Some acc
      | Some a \<Rightarrow>
          (case h a of
             None \<Rightarrow> None
           | Some f \<Rightarrow>
               forEach (collectFieldsRecursive P h) (children f)
                 (if length (widgets f) > 0
                  then (fst acc @ [buildField P f], indexField a (buildField P f) (snd acc))
                  else acc)))"

subsection \<open>cacheFormFields, findFormField (lines 129-161)\<close>

definition cacheFormFields :: "poppler \<Rightarrow> Impl \<Rightarrow> Impl option" where
  "cacheFormFields P s =
     (if fieldsCached' s then Some s
      else case doc' s of
        None \<Rightarrow> Some s
      | Some d \<Rightarrow>
          (let s1 = s\<lparr>cachedFields' := []\<rparr>
           in case getForm s1 of
                None \<Rightarrow> Some (s1\<lparr>fieldsCached' := True\<rparr>)
              | Some form \<Rightarrow>
                  (case forEach (\<lambda>field acc. if field \<noteq> None
                                              then collectFieldsRecursive P (nodes d) field acc
                                              else Some acc)
                          form (cachedFields' s1, fieldMap' s1) of
                     None \<Rightarrow> None
                   | Some (output, fieldMap) \<Rightarrow>
                       Some (s1\<lparr>cachedFields' := output, fieldMap' := fieldMap,
                                 fieldsCached' := True\<rparr>))))"

definition findFormField :: "poppler \<Rightarrow> Impl \<Rightarrow> string \<Rightarrow> (addr option \<times> Impl) option" where
  "findFormField P s nm =
     (case cacheFormFields P s of
        None \<Rightarrow> None
      | Some s1 \<Rightarrow> Some (fieldMap' s1 nm, s1))"

subsection \<open>The typed setters (lines 276-388)\<close>

definition setTextFieldValue ::
  "poppler \<Rightarrow> Impl \<Rightarrow> string \<Rightarrow> string \<Rightarrow> (bool \<times> Impl) option" where
  "setTextFieldValue P s nm v =
     (case findFormField P s nm of
        None \<Rightarrow> None
      | Some (None, s1) \<Rightarrow> Some (False, s1\<lparr>lastError' := ''Field not found: '' @ nm\<rparr>)
      | Some (Some a, s1) \<Rightarrow>
          (case deref s1 a of
             None \<Rightarrow> None
           | Some field \<Rightarrow>
               if getType field \<noteq> formText
               then Some (False, s1\<lparr>lastError' := ''Field is not a text field: '' @ nm\<rparr>)
               else Some (True, (store s1 a (setContentCopy (utf8ToUtf16WithBom P v) field))
                                  \<lparr>fieldsCached' := False, modified' := True\<rparr>)))"

text \<open>
  The scan of lines 319-327: the first index whose option is present and converts to the
  value; \<open>None\<close> is the \<open>selectedIdx = -1\<close> left by a scan that finds nothing.
\<close>

fun findChoice :: "poppler \<Rightarrow> FormField \<Rightarrow> string \<Rightarrow> nat \<Rightarrow> nat \<Rightarrow> nat option" where
  "findChoice P field v i 0 = None"
| "findChoice P field v i (Suc k) =
     (case getChoice field i of
        Some g \<Rightarrow> (if gooToStd P (Some g) = v then Some i else findChoice P field v (Suc i) k)
      | None \<Rightarrow> findChoice P field v (Suc i) k)"

definition setChoiceFieldValue ::
  "poppler \<Rightarrow> Impl \<Rightarrow> string \<Rightarrow> string \<Rightarrow> (bool \<times> Impl) option" where
  "setChoiceFieldValue P s nm v =
     (case findFormField P s nm of
        None \<Rightarrow> None
      | Some (None, s1) \<Rightarrow> Some (False, s1\<lparr>lastError' := ''Field not found: '' @ nm\<rparr>)
      | Some (Some a, s1) \<Rightarrow>
          (case deref s1 a of
             None \<Rightarrow> None
           | Some field \<Rightarrow>
               if getType field \<noteq> formChoice
               then Some (False, s1\<lparr>lastError' := ''Field is not a choice field: '' @ nm\<rparr>)
               else (case findChoice P field v 0 (getNumChoices field) of
                       None \<Rightarrow>
                         Some (False, s1\<lparr>lastError' := ''Value not in choice options: '' @ v\<rparr>)
                     | Some selectedIdx \<Rightarrow>
                         Some (True, (store s1 a (select selectedIdx field))
                                       \<lparr>fieldsCached' := False, modified' := True\<rparr>))))"

text \<open>Lines 363-377: the "on" state name of the first widget, or the default.\<close>

definition checkedState :: "FormField \<Rightarrow> string" where
  "checkedState field =
     (let cs = (if length (widgets field) > 0
                then (case hd (widgets field) of
                        Some widget \<Rightarrow> (if widgetType widget = formButton then onStr widget else None)
                      | None \<Rightarrow> None)
                else None)
      in case cs of
           None \<Rightarrow> ''Yes''
         | Some str \<Rightarrow> (if str = [] then ''Yes'' else str))"

definition setButtonFieldValue ::
  "poppler \<Rightarrow> Impl \<Rightarrow> string \<Rightarrow> bool \<Rightarrow> (bool \<times> Impl) option" where
  "setButtonFieldValue P s nm checked =
     (case findFormField P s nm of
        None \<Rightarrow> None
      | Some (None, s1) \<Rightarrow> Some (False, s1\<lparr>lastError' := ''Field not found: '' @ nm\<rparr>)
      | Some (Some a, s1) \<Rightarrow>
          (case deref s1 a of
             None \<Rightarrow> None
           | Some field \<Rightarrow>
               if getType field \<noteq> formButton
               then Some (False, s1\<lparr>lastError' := ''Field is not a button field: '' @ nm\<rparr>)
               else if getButtonType field \<noteq> formButtonCheck \<and> getButtonType field \<noteq> formButtonRadio
               then Some (True, s1)
               else (let newState = (if checked then checkedState field else ''Off'')
                     in Some (True, (store s1 a (setState newState field))
                                      \<lparr>fieldsCached' := False, modified' := True\<rparr>))))"

subsection \<open>flattenForm, saveToMemory, renderPageToPng (lines 390-540)\<close>

text \<open>
  The page loop of \<open>flattenForm\<close> (lines 403-422) has an empty body and changes nothing.
\<close>

definition flattenForm :: "Impl \<Rightarrow> bool \<times> Impl" where
  "flattenForm s =
     (case doc' s of
        None \<Rightarrow> (False, s\<lparr>lastError' := ''No document loaded''\<rparr>)
      | Some d \<Rightarrow>
          (case getForm s of
             None \<Rightarrow> (False, s\<lparr>lastError' := ''Document has no form''\<rparr>)
           | Some form \<Rightarrow> (True, s\<lparr>modified' := True\<rparr>)))"

definition saveToMemory :: "poppler \<Rightarrow> Impl \<Rightarrow> bytes \<times> Impl" where
  "saveToMemory P s =
     (case doc' s of
        None \<Rightarrow> ([], s\<lparr>lastError' := ''No document loaded''\<rparr>)
      | Some d \<Rightarrow>
          (let writeMode = (if modified' s then writeForceRewrite else writeStandard)
           in case saveAs P d writeMode of
                (result, file) \<Rightarrow>
                  if result \<noteq> 0
                  then ([], s\<lparr>lastError' := ''Failed to save PDF: error code '' @ to_string result\<rparr>)
                  else (case file of
                          None \<Rightarrow> ([], s\<lparr>lastError' := ''Failed to read saved PDF''\<rparr>)
                        | Some output \<Rightarrow> (output, s))))"

definition renderPageToPng :: "poppler \<Rightarrow> Impl \<Rightarrow> int \<Rightarrow> real \<Rightarrow> bytes \<times> Impl" where
  "renderPageToPng P s page dpi =
     (case doc' s of
        None \<Rightarrow> ([], s)
      | Some d \<Rightarrow>
          if page < 0 \<or> page \<ge> numPages d then ([], s)
          else (case displayPage P d (page + 1) dpi of
                  None \<Rightarrow> ([], s\<lparr>lastError' := ''Failed to render page''\<rparr>)
                | Some bitmap \<Rightarrow>
                    (case writePng P (bmWidth bitmap) (bmHeight bitmap)
                            (map (\<lambda>y. drop (y * bmRowSize bitmap) (bmData bitmap))
                                 [0 ..< bmHeight bitmap]) of
                       None \<Rightarrow> ([], s)
                     | Some pngData \<Rightarrow> (pngData, s))))"

section \<open>The public class PdfDocument (lines 543-670)\<close>

definition getPageCount :: "Impl \<Rightarrow> int" where
  "getPageCount s = (case doc' s of Some d \<Rightarrow> numPages d | None \<Rightarrow> 0)"

definition getInfoString :: "poppler \<Rightarrow> Impl \<Rightarrow> string \<Rightarrow> string" where
  "getInfoString P s key =
     (case doc' s of
        None \<Rightarrow> ''''
      | Some d \<Rightarrow>
          (case docInfo d of
             None \<Rightarrow> ''''
           | Some info \<Rightarrow> (case info key of Some g \<Rightarrow> gooToStd P (Some g) | None \<Rightarrow> '''')))"

definition getTitle :: "poppler \<Rightarrow> Impl \<Rightarrow> string" where
  "getTitle P s = getInfoString P s ''Title''"

definition getAuthor :: "poppler \<Rightarrow> Impl \<Rightarrow> string" where
  "getAuthor P s = getInfoString P s ''Author''"

definition hasAcroForm :: "Impl \<Rightarrow> bool" where
  "hasAcroForm s = (getForm s \<noteq> None)"

definition getFormFields :: "poppler \<Rightarrow> Impl \<Rightarrow> (PdfFormField list \<times> Impl) option" where
  "getFormFields P s =
     (case cacheFormFields P s of None \<Rightarrow> None | Some s1 \<Rightarrow> Some (cachedFields' s1, s1))"

definition getFieldByName ::
  "poppler \<Rightarrow> Impl \<Rightarrow> string \<Rightarrow> (PdfFormField option \<times> Impl) option" where
  "getFieldByName P s nm =
     (case cacheFormFields P s of
        None \<Rightarrow> None
      | Some s1 \<Rightarrow> Some (find (\<lambda>field. name field = nm \<or> fullName field = nm) (cachedFields' s1), s1))"

definition setFieldValue :: "poppler \<Rightarrow> Impl \<Rightarrow> string \<Rightarrow> string \<Rightarrow> (bool \<times> Impl) option" where
  "setFieldValue P s nm v =
     (case findFormField P s nm of
        None \<Rightarrow> None
      | Some (None, s1) \<Rightarrow> Some (False, s1\<lparr>lastError' := ''Field not found: '' @ nm\<rparr>)
      | Some (Some a, s1) \<Rightarrow>
          (case deref s1 a of
             None \<Rightarrow> None
           | Some field \<Rightarrow>
               (case getType field of
                  formText \<Rightarrow> setTextFieldValue P s1 nm v
                | formChoice \<Rightarrow> setChoiceFieldValue P s1 nm v
                | formButton \<Rightarrow>
                    setButtonFieldValue P s1 nm (v \<noteq> [] \<and> v \<noteq> ''0'' \<and> v \<noteq> ''false'')
                | _ \<Rightarrow> Some (False, s1\<lparr>lastError' := ''Unsupported field type for setValue''\<rparr>))))"

definition setCheckboxValue :: "poppler \<Rightarrow> Impl \<Rightarrow> string \<Rightarrow> bool \<Rightarrow> (bool \<times> Impl) option" where
  "setCheckboxValue P s nm checked = setButtonFieldValue P s nm checked"

text \<open>
  \<open>setFieldValues\<close>: the loop of lines 633-638 with its flag \<open>allSuccess\<close>, which a
  failing pair clears and nothing sets again.
\<close>

fun setFieldValuesLoop ::
  "poppler \<Rightarrow> bool \<Rightarrow> Impl \<Rightarrow> (string \<times> string) list \<Rightarrow> (bool \<times> Impl) option" where
  "setFieldValuesLoop P allSuccess s [] = Some (allSuccess, s)"
| "setFieldValuesLoop P allSuccess s ((nm, v) # rest) =
     (case setFieldValue P s nm v of
        None \<Rightarrow> None
      | Some (ok, s1) \<Rightarrow> setFieldValuesLoop P (if \<not> ok then False else allSuccess) s1 rest)"

definition setFieldValues ::
  "poppler \<Rightarrow> Impl \<Rightarrow> (string \<times> string) list \<Rightarrow> (bool \<times> Impl) option" where
  "setFieldValues P s values = setFieldValuesLoop P True s values"

definition getLastError :: "Impl \<Rightarrow> string" where
  "getLastError s = lastError' s"

section \<open>Utility functions (lines 672-693)\<close>

definition fieldTypeToString :: "FieldType \<Rightarrow> string" where
  "fieldTypeToString t =
     (case t of
        Text \<Rightarrow> ''text''
      | Button \<Rightarrow> ''button''
      | Checkbox \<Rightarrow> ''checkbox''
      | Radio \<Rightarrow> ''radio''
      | Choice \<Rightarrow> ''choice''
      | Signature \<Rightarrow> ''signature''
      | _ \<Rightarrow> ''unknown'')"

definition stringToFieldType :: "string \<Rightarrow> FieldType" where
  "stringToFieldType str =
     (if str = ''text'' then Text
      else if str = ''button'' then Button
      else if str = ''checkbox'' then Checkbox
      else if str = ''radio'' then Radio
      else if str = ''choice'' then Choice
      else if str = ''signature'' then Signature
      else Unknown)"

section \<open>Notions used to state the properties\<close>

text \<open>
  The child references below a field pointer end within \<open>n\<close> steps, and every pointer
  on the way leads to a node of the store. A store with a cyclic child reference satisfies
  this for no \<open>n\<close>.
\<close>

fun depthWithin :: "nat \<Rightarrow> (addr \<Rightarrow> FormField option) \<Rightarrow> addr option \<Rightarrow> bool" where
  "depthWithin n h None = True"
| "depthWithin 0 h (Some a) = False"
| "depthWithin (Suc n) h (Some a) =
     (case h a of None \<Rightarrow> False | Some f \<Rightarrow> list_all (depthWithin n h) (children f))"

text \<open>
  An identifier resolves to a push button: the one case in which a setter reports success
  and has changed nothing (lines 358-361). \<open>s1\<close> is the session after the lookup.
\<close>

definition pushButtonSkipped :: "poppler \<Rightarrow> Impl \<Rightarrow> string \<Rightarrow> Impl \<Rightarrow> bool" where
  "pushButtonSkipped P s nm s1 =
     (case findFormField P s nm of
        Some (Some a, s2) \<Rightarrow>
          s2 = s1 \<and>
          (case deref s1 a of
             Some field \<Rightarrow>
               getType field = formButton \<and> getButtonType field \<noteq> formButtonCheck \<and>
               getButtonType field \<noteq> formButtonRadio
           | None \<Rightarrow> False)
      | _ \<Rightarrow> False)"

text \<open>
  An index entry under a key resolves to a node of the store that has a widget, whose
  record is one of the cached records and carries the key as its full name or its name.
\<close>

definition resolvesTo ::
  "poppler \<Rightarrow> (addr \<Rightarrow> FormField option) \<Rightarrow> PdfFormField list \<Rightarrow> (string \<Rightarrow> addr option) \<Rightarrow>
   string \<Rightarrow> bool" where
  "resolvesTo P h ffs fieldMap k =
     (case fieldMap k of
        None \<Rightarrow> False
      | Some a \<Rightarrow>
          (case h a of
             None \<Rightarrow> False
           | Some f \<Rightarrow>
               length (widgets f) > 0 \<and> buildField P f \<in> set ffs \<and>
               (fullName (buildField P f) = k \<or> name (buildField P f) = k)))"

text \<open>
  Every record of the cache that has a name is indexed, under its full name and under its
  name, by an entry that resolves in this way. Where one cached record alone carries a key,
  the entry under that key resolves to a node with that very record.
\<close>

definition indexCovers ::
  "poppler \<Rightarrow> (addr \<Rightarrow> FormField option) \<Rightarrow> PdfFormField list \<Rightarrow> (string \<Rightarrow> addr option) \<Rightarrow>
   bool" where
  "indexCovers P h ffs fieldMap =
     list_all (\<lambda>ff. (fullName ff = [] \<or> resolvesTo P h ffs fieldMap (fullName ff)) \<and>
                     (name ff = [] \<or> resolvesTo P h ffs fieldMap (name ff))) ffs"

text \<open>
  The cache and the index of a session agree, on the nodes of the document the session
  holds, whenever the cache is marked valid.
\<close>

definition cacheConsistent :: "poppler \<Rightarrow> Impl \<Rightarrow> bool" where
  "cacheConsistent P s =
     (fieldsCached' s \<longrightarrow>
        indexCovers P (case doc' s of None \<Rightarrow> (\<lambda>a. None) | Some d \<Rightarrow> nodes d)
          (cachedFields' s) (fieldMap' s))"

text \<open>
  What a setter that returns can have done: on success it has marked the session modified
  and the cache invalid, or it has skipped a push button; on failure it has recorded an
  error in the session the lookup left, and nothing else.
\<close>

definition setterOutcome :: "poppler \<Rightarrow> Impl \<Rightarrow> string \<Rightarrow> bool \<Rightarrow> Impl \<Rightarrow> bool" where
  "setterOutcome P s nm ok s' =
     (\<exists>p s1. findFormField P s nm = Some (p, s1) \<and>
        (if ok then (modified' s' \<and> \<not> fieldsCached' s') \<or> pushButtonSkipped P s nm s'
         else s' = s1\<lparr>lastError' := lastError' s'\<rparr>))"

text \<open>
  The option at an index is present and converts to exactly the given value.
\<close>

definition choiceMatches :: "poppler \<Rightarrow> FormField \<Rightarrow> string \<Rightarrow> nat \<Rightarrow> bool" where
  "choiceMatches P field v j = (case getChoice field j of Some g \<Rightarrow> TextStringToUtf8 P g = v | None \<Rightarrow> False)"

text \<open>
  \<open>setFieldValues\<close> in the words of its description: \<open>setFieldValue\<close> is applied to every
  pair in the given order, each on the session the pair before it left; the outcomes of
  all the pairs are kept.
\<close>

fun attemptAll ::
  "poppler \<Rightarrow> Impl \<Rightarrow> (string \<times> string) list \<Rightarrow> (bool list \<times> Impl) option" where
  "attemptAll P s [] = Some ([], s)"
| "attemptAll P s ((nm, v) # rest) =
     (case setFieldValue P s nm v of
        None \<Rightarrow> None
      | Some (ok, s1) \<Rightarrow>
          (case attemptAll P s1 rest of
             None \<Rightarrow> None
           | Some (oks, s2) \<Rightarrow> Some (ok # oks, s2)))"

text \<open>
  The scenarios of the testable properties: set a field, then read the record of that
  identifier back through \<open>getFieldByName\<close>.
\<close>

definition setThenGet ::
  "poppler \<Rightarrow> Impl \<Rightarrow> string \<Rightarrow> string \<Rightarrow> (bool \<times> PdfFormField option) option" where
  "setThenGet P s nm v =
     (case setFieldValue P s nm v of
        None \<Rightarrow> None
      | Some (ok, s1) \<Rightarrow>
          (case getFieldByName P s1 nm of
             None \<Rightarrow> None
           | Some (ff, s2) \<Rightarrow> Some (ok, ff)))"

section \<open>Example documents\<close>

text \<open>
  An instance of the collaborators, for running the operations on examples: a codec that
  leaves plain text as it is, a parser that knows two byte strings, a button reading that
  takes every state but \<open>Off\<close> for on, a writer that succeeds, no rasteriser.
\<close>

definition sampleWidget :: "FormFieldType \<Rightarrow> string option \<Rightarrow> FormWidget" where
  "sampleWidget t on = \<lparr>rect = (10, 20, 110, 40), pageNum = 1, widgetType = t, onStr = on\<rparr>"

definition sampleField ::
  "string option \<Rightarrow> string option \<Rightarrow> FormWidget option list \<Rightarrow> addr option list \<Rightarrow>
   FieldData \<Rightarrow> FormField" where
  "sampleField pn fqn ws cs d =
     \<lparr>partialName = pn, fullyQualifiedName = fqn, readOnlyFlag = False,
      widgets = ws, children = cs, fieldData = d\<rparr>"

text \<open>
  A form: a container \<open>p\<close> with a text field \<open>p.t\<close> and a checkbox \<open>p.c\<close>, a choice
  field \<open>k\<close> whose second option is absent, and a push button without a partial name.
\<close>

definition formNodes :: "addr \<Rightarrow> FormField option" where
  "formNodes a =
     (if a = 0 then Some (sampleField (Some ''p'') (Some ''p'') [] [Some 1, None, Some 2] UndefData)
      else if a = 1 then Some (sampleField (Some ''t'') (Some ''p.t'')
                                 [Some (sampleWidget formText None)] [] (TextData (Some ''old'')))
      else if a = 2 then Some (sampleField (Some ''c'') (Some ''p.c'')
                                 [Some (sampleWidget formButton (Some ''On''))] []
                                 (ButtonData formButtonCheck ''Off''))
      else if a = 3 then Some (sampleField (Some ''k'') (Some ''k'')
                                 [Some (sampleWidget formChoice None)] []
                                 (ChoiceData [Some ''red'', None, Some ''green''] []))
      else if a = 4 then Some (sampleField None (Some ''b'')
                                 [Some (sampleWidget formButton None)] []
                                 (ButtonData formButtonPush ''Off''))
      else None)"

definition formDoc :: PDFDoc where
  "formDoc =
     \<lparr>nodes = formNodes, catalog = Some (Some [Some 0, Some 3, Some 4]), numPages = 2,
      docInfo = Some (\<lambda>k. if k = ''Title'' then Some ''Form'' else None)\<rparr>"

text \<open>A second document, with one text field \<open>n\<close>.\<close>

definition otherDoc :: PDFDoc where
  "otherDoc =
     \<lparr>nodes = (\<lambda>a. if a = 7
                    then Some (sampleField (Some ''n'') (Some ''n'')
                                 [Some (sampleWidget formText None)] [] (TextData None))
                    else None),
      catalog = Some (Some [Some 7]), numPages = 1, docInfo = None\<rparr>"

text \<open>A document whose only field node lists itself as its child.\<close>

definition cyclicDoc :: PDFDoc where
  "cyclicDoc =
     \<lparr>nodes = (\<lambda>a. if a = 0
                    then Some (sampleField (Some ''p'') (Some ''p'') [] [Some 0] UndefData)
                    else None),
      catalog = Some (Some [Some 0]), numPages = 1, docInfo = None\<rparr>"

text \<open>
  A document whose only field has a partial name that is present and empty, below a parent
  named \<open>p\<close>.
\<close>

definition emptyNameDoc :: PDFDoc where
  "emptyNameDoc =
     \<lparr>nodes = (\<lambda>a. if a = 0
                    then Some (sampleField (Some '''') (Some ''p.'')
                                 [Some (sampleWidget formText None)] [] (TextData None))
                    else None),
      catalog = Some (Some [Some 0]), numPages = 1, docInfo = None\<rparr>"

definition examplePoppler :: poppler where
  "examplePoppler =
     \<lparr>TextStringToUtf8 = (\<lambda>g. g),
      utf8ToUtf16WithBom = (\<lambda>g. g),
      newPDFDoc = (\<lambda>data ownerPw userPw.
                     if data = [1] then Inr formDoc
                     else if data = [2] then Inr otherDoc
                     else Inl 1),
      getState = (\<lambda>f. getAppearanceState f \<noteq> ''Off''),
      saveAs = (\<lambda>d m. (0, Some [])),
      displayPage = (\<lambda>d p dpi. None),
      writePng = (\<lambda>w h rows. None),
      readFile = (\<lambda>path. None)\<rparr>"

text \<open>A session on the form, as \<open>loadFromMemory\<close> leaves it.\<close>

definition formSession :: Impl where
  "formSession = newImpl\<lparr>doc' := Some formDoc, originalData' := [1]\<rparr>"

text \<open>
  Load the form, list its fields, load the second document into the same session, list
  its fields.
\<close>

definition reloadedSession :: "Impl option" where
  "reloadedSession =
     (case loadFromMemory examplePoppler newImpl [1] '''' of
        (ok1, s1) \<Rightarrow>
          (case getFormFields examplePoppler s1 of
             None \<Rightarrow> None
           | Some (fields1, s2) \<Rightarrow>
               (case loadFromMemory examplePoppler s2 [2] '''' of
                  (ok2, s3) \<Rightarrow>
                    (case getFormFields examplePoppler s3 of
                       None \<Rightarrow> None
                     | Some (fields2, s4) \<Rightarrow> Some s4))))"

text \<open>
  Load the form, list its fields, then offer the same session bytes the parser rejects.
\<close>

definition rejectedReloadSession :: "Impl option" where
  "rejectedReloadSession =
     (case loadFromMemory examplePoppler newImpl [1] '''' of
        (ok1, s1) \<Rightarrow>
          (case getFormFields examplePoppler s1 of
             None \<Rightarrow> None
           | Some (fields1, s2) \<Rightarrow>
               (case loadFromMemory examplePoppler s2 [9] '''' of
                  (ok2, s3) \<Rightarrow> Some s3)))"

lemmas example_defs = examplePoppler_def formSession_def formDoc_def formNodes_def
  otherDoc_def cyclicDoc_def emptyNameDoc_def sampleField_def sampleWidget_def newImpl_def

lemmas flatten_defs = cacheFormFields_def getForm_def collectFieldsRecursive.simps
  buildField_def fieldNames_def fieldValue_def fieldGeometry_def indexField_def gooToStd_def
  convertFieldType_def newPdfFormField_def

lemmas setter_defs = setFieldValue_def setTextFieldValue_def setChoiceFieldValue_def
  setButtonFieldValue_def setCheckboxValue_def findFormField_def deref_def store_def
  checkedState_def

section \<open>Properties\<close>

subsection \<open>Loops and the traversal\<close>

lemma forEach_returns:
  "(\<And>x s. x \<in> set xs \<Longrightarrow> \<exists>s'. body x s = Some s') \<Longrightarrow> \<exists>s'. forEach body xs s = Some s'"
proof (induction xs arbitrary: s)
  case Nil
  show ?case by simp
next
  case (Cons x xs)
  from Cons.prems[of x s] obtain s1 where s1: "body x s = Some s1" by auto
  from Cons.IH[of s1] Cons.prems obtain s2 where "forEach body xs s1 = Some s2" by auto
  with s1 show ?case by simp
qed

lemma forEach_invariant:
  "forEach body xs s = Some s' \<Longrightarrow> I s \<Longrightarrow>
   (\<And>x t t'. x \<in> set xs \<Longrightarrow> body x t = Some t' \<Longrightarrow> I t \<Longrightarrow> I t') \<Longrightarrow> I s'"
proof (induction xs arbitrary: s)
  case Nil
  then show ?case by simp
next
  case (Cons x xs)
  from Cons.prems(1) obtain s1 where s1: "body x s = Some s1"
    and r: "forEach body xs s1 = Some s'"
    by (auto split: option.splits)
  have "I s1" using Cons.prems(3)[of x s s1] s1 Cons.prems(2) by simp
  show ?case
  proof (rule Cons.IH[OF r \<open>I s1\<close>])
    fix y t t' assume "y \<in> set xs" "body y t = Some t'" "I t"
    then show "I t'" using Cons.prems(3)[of y t t'] by simp
  qed
qed

lemma collect_returns:
  "depthWithin n h field \<Longrightarrow> \<exists>r. collectFieldsRecursive P h field acc = Some r"
proof (induction n arbitrary: field acc)
  case 0
  then show ?case by (cases field) (simp_all add: collectFieldsRecursive.simps)
next
  case (Suc n)
  show ?case
  proof (cases field)
    case None
    then show ?thesis by (simp add: collectFieldsRecursive.simps)
  next
    case (Some a)
    with Suc.prems obtain f where f: "h a = Some f"
      and ch: "list_all (depthWithin n h) (children f)"
      by (auto split: option.splits)
    have "\<exists>s'. forEach (collectFieldsRecursive P h) (children f) s0 = Some s'" for s0
      by (rule forEach_returns) (use ch Suc.IH in \<open>auto simp: list_all_iff\<close>)
    with Some f show ?thesis
      by (subst collectFieldsRecursive.simps) simp
  qed
qed

text \<open>
  What holds of the accumulated records and index before a traversal, and is kept by the
  emission of one terminal field, holds after the traversal.
\<close>

lemma collect_invariant:
  assumes ret: "collectFieldsRecursive P h field acc = Some acc'"
    and init: "I acc"
    and step: "\<And>a f t. h a = Some f \<Longrightarrow> length (widgets f) > 0 \<Longrightarrow> I t \<Longrightarrow>
               I (fst t @ [buildField P f], indexField a (buildField P f) (snd t))"
  shows "I acc'"
proof -
  define Q where "Q = (\<lambda>(x :: ((poppler \<times> (addr \<Rightarrow> FormField option)) \<times> addr option) \<times>
        PdfFormField list \<times> (string \<Rightarrow> addr option)) y.
      fst (fst (fst x)) = P \<and> snd (fst (fst x)) = h \<longrightarrow> I (snd x) \<longrightarrow> I y)"
  have "Q (((P, h), field), acc) acc'"
  proof (rule collectFieldsRecursive.raw_induct[where Pa = Q, OF _ ret])
    fix col P' h' field acc acc'
    assume IH: "\<And>h field acc b y. col h field acc b = Some y \<Longrightarrow> Q (((h, field), acc), b) y"
      and body: "(case field of None \<Rightarrow> Some acc
         | Some a \<Rightarrow>
          (case h' a of None \<Rightarrow> None
          | Some f \<Rightarrow>
              forEach (col P' h') (children f)
               (if 0 < length (widgets f)
                then (fst acc @ [buildField P' f], indexField a (buildField P' f) (snd acc))
                else acc))) = Some acc'"
    show "Q (((P', h'), field), acc) acc'"
      unfolding Q_def
    proof (intro impI)
      assume eq: "fst (fst (fst (((P', h'), field), acc))) = P
          \<and> snd (fst (fst (((P', h'), field), acc))) = h"
        and I: "I (snd (((P', h'), field), acc))"
      show "I acc'"
      proof (cases field)
        case None
        with body I show ?thesis by simp
      next
        case (Some a)
        with body obtain f where f: "h' a = Some f"
          and fe: "forEach (col P' h') (children f)
                 (if length (widgets f) > 0
                  then (fst acc @ [buildField P' f], indexField a (buildField P' f) (snd acc))
                  else acc) = Some acc'"
          by (auto split: option.splits)
        have I0: "I (if length (widgets f) > 0
                  then (fst acc @ [buildField P' f], indexField a (buildField P' f) (snd acc))
                  else acc)"
          using I step[of a f acc] f eq by auto
        show ?thesis
        proof (rule forEach_invariant[where I = I, OF fe I0])
          fix c t t' assume "col P' h' c t = Some t'" "I t"
          then show "I t'" using IH[of P' h' c t t'] eq by (simp add: Q_def)
        qed
      qed
    qed
  qed
  with init show ?thesis by (simp add: Q_def)
qed

text \<open>A traversal that starts at a node which is its own child does not return.\<close>

lemma collect_self_child:
  assumes ret: "collectFieldsRecursive P h field acc = Some acc'"
    and node: "h a = Some f" and self: "children f = [Some a]"
  shows "field \<noteq> Some a"
proof -
  define Q where "Q = (\<lambda>(x :: ((poppler \<times> (addr \<Rightarrow> FormField option)) \<times> addr option) \<times>
        PdfFormField list \<times> (string \<Rightarrow> addr option))
        (y :: PdfFormField list \<times> (string \<Rightarrow> addr option)).
      snd (fst (fst x)) = h \<longrightarrow> snd (fst x) \<noteq> Some a)"
  have "Q (((P, h), field), acc) acc'"
  proof (rule collectFieldsRecursive.raw_induct[where Pa = Q, OF _ ret])
    fix col P' h' field acc acc'
    assume IH: "\<And>h field acc b y. col h field acc b = Some y \<Longrightarrow> Q (((h, field), acc), b) y"
      and body: "(case field of None \<Rightarrow> Some acc
         | Some a \<Rightarrow>
          (case h' a of None \<Rightarrow> None
          | Some f \<Rightarrow>
              forEach (col P' h') (children f)
               (if 0 < length (widgets f)
                then (fst acc @ [buildField P' f], indexField a (buildField P' f) (snd acc))
                else acc))) = Some acc'"
    show "Q (((P', h'), field), acc) acc'"
      unfolding Q_def
    proof (intro impI notI)
      assume eq: "snd (fst (fst (((P', h'), field), acc))) = h"
        and fa: "snd (fst (((P', h'), field), acc)) = Some a"
      from eq fa body node self obtain t where "col P' h (Some a) t = Some acc'"
        by (auto split: option.splits if_splits)
      from IH[OF this] show False by (simp add: Q_def)
    qed
  qed
  then show ?thesis by (simp add: Q_def)
qed

text \<open>
  C1 (as the code has it). The traversal returns whenever the child references below the
  field it starts from end within some number of steps, as they do in a tree of field
  nodes. Nothing in the traversal bounds its depth or remembers the nodes it has visited.
\<close>

theorem collectFieldsRecursive_returns_on_bounded_depth:
  "depthWithin n h field \<Longrightarrow> \<exists>r. collectFieldsRecursive P h field acc = Some r"
  by (rule collect_returns)

theorem collectFieldsRecursive_returns_witness:
  "depthWithin (Suc (Suc 0)) formNodes (Some 0) \<and>
   (\<exists>r. collectFieldsRecursive examplePoppler formNodes (Some 0) ([], \<lambda>k. None) = Some r)"
  using collectFieldsRecursive_returns_on_bounded_depth
    [of "Suc (Suc 0)" formNodes "Some 0" examplePoppler "([], \<lambda>k. None)"]
  by (simp add: formNodes_def sampleField_def)

text \<open>
  On the document whose field node is its own child, the traversal does not return, and
  neither does the listing of the fields of a session that holds this document.
\<close>

theorem collectFieldsRecursive_cyclic_counterexample:
  "map_option children (nodes cyclicDoc 0) = Some [Some 0] \<and>
   collectFieldsRecursive examplePoppler (nodes cyclicDoc) (Some 0) ([], \<lambda>k. None) = None \<and>
   getFormFields examplePoppler (newImpl\<lparr>doc' := Some cyclicDoc\<rparr>) = None"
proof -
  have n: "nodes cyclicDoc 0 = Some (sampleField (Some ''p'') (Some ''p'') [] [Some 0] UndefData)"
    by (simp add: cyclicDoc_def)
  have c: "children (sampleField (Some ''p'') (Some ''p'') [] [Some 0] UndefData) = [Some 0]"
    by (simp add: sampleField_def)
  have none: "collectFieldsRecursive examplePoppler (nodes cyclicDoc) (Some 0) acc = None" for acc
  proof (cases "collectFieldsRecursive examplePoppler (nodes cyclicDoc) (Some 0) acc")
    case None
    then show ?thesis .
  next
    case (Some r)
    from collect_self_child[OF Some n c] show ?thesis by simp
  qed
  have "getFormFields examplePoppler (newImpl\<lparr>doc' := Some cyclicDoc\<rparr>) = None"
    by (simp add: getFormFields_def cacheFormFields_def getForm_def newImpl_def none)
      (simp add: cyclicDoc_def none[unfolded cyclicDoc_def, simplified])
  with none n c show ?thesis by simp
qed

text \<open>
  So the cache of a session is rebuilt whenever the root fields of its document have a
  bounded depth.
\<close>

lemma cacheFormFields_returns:
  assumes "\<And>d form. doc' s = Some d \<Longrightarrow> getForm s = Some form \<Longrightarrow>
             list_all (depthWithin n (nodes d)) form"
  shows "\<exists>s1. cacheFormFields P s = Some s1"
proof (cases "fieldsCached' s \<or> doc' s = None")
  case True
  then show ?thesis by (auto simp: cacheFormFields_def)
next
  case False
  then obtain d where d: "doc' s = Some d" and nc: "\<not> fieldsCached' s" by auto
  show ?thesis
  proof (cases "getForm s")
    case None
    with d nc show ?thesis by (simp add: cacheFormFields_def getForm_def)
  next
    case (Some form)
    have "\<exists>r. forEach (\<lambda>field acc. if field \<noteq> None
                                 then collectFieldsRecursive P (nodes d) field acc
                                 else Some acc) form ([], fieldMap' s) = Some r"
    proof (rule forEach_returns)
      fix x t assume "x \<in> set form"
      with assms[OF d Some] have "depthWithin n (nodes d) x" by (simp add: list_all_iff)
      from collect_returns[OF this, of P t]
      show "\<exists>s'. (if x \<noteq> None then collectFieldsRecursive P (nodes d) x t else Some t) = Some s'"
        by auto
    qed
    with d nc Some show ?thesis
      by (auto simp: cacheFormFields_def getForm_def split: option.splits)
  qed
qed

subsection \<open>The names of a record\<close>

lemma collect_emits:
  assumes "collectFieldsRecursive P h field (out, m) = Some (out', m')"
  shows "\<exists>new. out' = out @ new \<and>
           list_all (\<lambda>ff. \<exists>a f. h a = Some f \<and> length (widgets f) > 0 \<and> ff = buildField P f) new"
proof -
  have "(\<lambda>t. \<exists>new. fst t = out @ new \<and>
           list_all (\<lambda>ff. \<exists>a f. h a = Some f \<and> length (widgets f) > 0 \<and> ff = buildField P f) new)
        (out', m')"
    by (rule collect_invariant[OF assms]) (simp, fastforce)
  then show ?thesis by simp
qed

lemma buildField_names:
  "name (buildField P f) = (case partialName f of Some g \<Rightarrow> TextStringToUtf8 P g
                             | None \<Rightarrow> fullName (buildField P f))"
  "fullName (buildField P f) = (case fullyQualifiedName f of Some g \<Rightarrow> TextStringToUtf8 P g
                             | None \<Rightarrow> [])"
  by (auto simp: buildField_def fieldNames_def fieldValue_def fieldGeometry_def gooToStd_def Let_def
      split: option.splits FieldData.splits prod.splits)

text \<open>
  C9 (as the code has it). Every record the traversal emits is the record of a node with
  at least one widget, and when the partial name of that node is absent (a null pointer) or
  identical to its fully qualified name, the record's \<open>name\<close> equals its \<open>fullName\<close>.
\<close>

theorem emitted_name_aliases_fullName:
  assumes "collectFieldsRecursive P h field (out, m) = Some (out', m')"
  shows "\<exists>new. out' = out @ new \<and>
           (\<forall>ff \<in> set new. \<exists>a f. h a = Some f \<and> length (widgets f) > 0 \<and> ff = buildField P f \<and>
              (partialName f = None \<or> partialName f = fullyQualifiedName f \<longrightarrow> name ff = fullName ff))"
proof -
  from collect_emits[OF assms] obtain new where new: "out' = out @ new"
    and all: "list_all (\<lambda>ff. \<exists>a f. h a = Some f \<and> length (widgets f) > 0 \<and> ff = buildField P f) new"
    by blast
  have "\<exists>a f. h a = Some f \<and> length (widgets f) > 0 \<and> ff = buildField P f \<and>
              (partialName f = None \<or> partialName f = fullyQualifiedName f \<longrightarrow> name ff = fullName ff)"
    if "ff \<in> set new" for ff
  proof -
    from all that obtain a f where f: "h a = Some f" "length (widgets f) > 0" "ff = buildField P f"
      by (auto simp: list_all_iff)
    have "partialName f = None \<or> partialName f = fullyQualifiedName f \<longrightarrow> name ff = fullName ff"
      using f(3) by (auto simp: buildField_names split: option.splits)
    with f show ?thesis by blast
  qed
  with new show ?thesis by blast
qed

theorem emitted_name_witness:
  "collectFieldsRecursive examplePoppler formNodes (Some 4) ([], \<lambda>k. None)
     = Some ([buildField examplePoppler (the (formNodes 4))], (\<lambda>k. None)(''b'' := Some 4)) \<and>
   partialName (the (formNodes 4)) = None \<and>
   name (buildField examplePoppler (the (formNodes 4))) = ''b'' \<and>
   fullName (buildField examplePoppler (the (formNodes 4))) = ''b''"
  using emitted_name_aliases_fullName[of examplePoppler formNodes "Some 4" "[]" "\<lambda>k. None"
      "[buildField examplePoppler (the (formNodes 4))]" "(\<lambda>k. None)(''b'' := Some 4)"]
  by (simp add: example_defs flatten_defs)

text \<open>
  A partial name that is present and empty is not replaced: the record of the field
  \<open>p.\<close> of the example has the empty \<open>name\<close> beside the \<open>fullName\<close> \<open>p.\<close>.
\<close>

theorem empty_partial_name_counterexample:
  "map_option (\<lambda>ff. (partialName ff, fullyQualifiedName ff)) (nodes emptyNameDoc 0)
     = Some (Some [], Some ''p.'') \<and>
   map_option (\<lambda>(ffs, s). map (\<lambda>ff. (name ff, fullName ff)) ffs)
     (getFormFields examplePoppler (newImpl\<lparr>doc' := Some emptyNameDoc\<rparr>))
     = Some [([], ''p.'')]"
  by (simp add: getFormFields_def example_defs flatten_defs)

subsection \<open>The cache and the lookup\<close>

lemma cacheFormFields_keeps:
  assumes "cacheFormFields P s = Some s1"
  shows "doc' s1 = doc' s" and "modified' s1 = modified' s" and "lastError' s1 = lastError' s"
    and "originalData' s1 = originalData' s"
  using assms
  by (auto simp: cacheFormFields_def Let_def split: if_splits option.splits prod.splits)

lemma cacheFormFields_again:
  assumes "cacheFormFields P s = Some s1"
  shows "cacheFormFields P s1 = Some s1"
proof (cases "fieldsCached' s \<or> doc' s = None")
  case True
  with assms have "s1 = s"
    by (auto simp: cacheFormFields_def split: if_splits option.splits)
  with assms show ?thesis by simp
next
  case False
  with assms have "fieldsCached' s1"
    by (auto simp: cacheFormFields_def Let_def split: if_splits option.splits prod.splits)
  then show ?thesis by (simp add: cacheFormFields_def)
qed

lemma cacheFormFields_empty: "doc' s = None \<Longrightarrow> cacheFormFields P s = Some s"
  by (simp add: cacheFormFields_def)

lemma findFormField_again:
  "findFormField P s nm = Some (p, s1) \<Longrightarrow> findFormField P s1 nm = Some (p, s1)"
  by (auto simp: findFormField_def cacheFormFields_again split: option.splits)

lemma findFormField_keeps:
  assumes "findFormField P s nm = Some (p, s1)"
  shows "doc' s1 = doc' s" and "modified' s1 = modified' s" and "lastError' s1 = lastError' s"
  using assms cacheFormFields_keeps[of P s s1]
  by (auto simp: findFormField_def split: option.splits)

lemma deref_store:
  "deref s a = Some f0 \<Longrightarrow> deref (store s a f) b = (if b = a then Some f else deref s b)"
  by (auto simp: deref_def store_def split: option.splits)

lemma deref_flags [simp]:
  "deref (s\<lparr>fieldsCached' := c\<rparr>) = deref s"
  "deref (s\<lparr>modified' := m\<rparr>) = deref s"
  "deref (s\<lparr>lastError' := e\<rparr>) = deref s"
  by (simp_all add: deref_def fun_eq_iff)

lemma formSession_cached:
  "\<exists>s1. cacheFormFields examplePoppler formSession = Some s1 \<and> doc' s1 = Some formDoc \<and>
     fieldMap' s1 ''k'' = Some 3 \<and> fieldMap' s1 ''p.c'' = Some 2 \<and> fieldMap' s1 ''b'' = Some 4 \<and>
     fieldMap' s1 ''p.t'' = Some 1 \<and> fieldMap' s1 ''missing'' = None"
  by (simp add: example_defs flatten_defs)

subsection \<open>Choice fields\<close>

lemma findChoice_step:
  "findChoice P field v i (Suc k) =
     (if choiceMatches P field v i then Some i else findChoice P field v (Suc i) k)"
  by (simp add: choiceMatches_def gooToStd_def del: getChoice.simps split: option.splits)

lemma findChoice_None:
  "findChoice P field v i k = None \<longleftrightarrow> (\<forall>j. i \<le> j \<and> j < i + k \<longrightarrow> \<not> choiceMatches P field v j)"
proof (induction k arbitrary: i)
  case 0
  show ?case by auto
next
  case (Suc k)
  have "(\<forall>j. i \<le> j \<and> j < i + Suc k \<longrightarrow> \<not> choiceMatches P field v j) =
        (\<not> choiceMatches P field v i \<and> (\<forall>j. Suc i \<le> j \<and> j < Suc i + k \<longrightarrow> \<not> choiceMatches P field v j))"
    by (metis Suc_leD Suc_le_eq add_Suc add_Suc_right le_eq_less_or_eq less_add_Suc1)
  with Suc.IH[of "Suc i"] show ?case
    by (simp only: findChoice_step split: if_splits) auto
qed

lemma findChoice_Some:
  "findChoice P field v i k = Some r \<longleftrightarrow>
   (i \<le> r \<and> r < i + k \<and> choiceMatches P field v r \<and>
    (\<forall>j. i \<le> j \<and> j < r \<longrightarrow> \<not> choiceMatches P field v j))"
proof (induction k arbitrary: i)
  case 0
  show ?case by auto
next
  case (Suc k)
  show ?case
  proof (cases "choiceMatches P field v i")
    case True
    have "(i \<le> r \<and> r < i + Suc k \<and> choiceMatches P field v r \<and>
      (\<forall>j. i \<le> j \<and> j < r \<longrightarrow> \<not> choiceMatches P field v j)) = (r = i)"
    proof
      assume h: "i \<le> r \<and> r < i + Suc k \<and> choiceMatches P field v r \<and>
        (\<forall>j. i \<le> j \<and> j < r \<longrightarrow> \<not> choiceMatches P field v j)"
      show "r = i"
      proof (rule ccontr)
        assume "r \<noteq> i"
        with h have "i \<le> i \<and> i < r" by auto
        with h True show False by blast
      qed
    next
      assume "r = i"
      with True show "i \<le> r \<and> r < i + Suc k \<and> choiceMatches P field v r \<and>
        (\<forall>j. i \<le> j \<and> j < r \<longrightarrow> \<not> choiceMatches P field v j)" by auto
    qed
    with True show ?thesis by (simp only: findChoice_step) auto
  next
    case False
    have "(i \<le> r \<and> r < i + Suc k \<and> choiceMatches P field v r \<and>
      (\<forall>j. i \<le> j \<and> j < r \<longrightarrow> \<not> choiceMatches P field v j)) =
      (Suc i \<le> r \<and> r < Suc i + k \<and> choiceMatches P field v r \<and>
      (\<forall>j. Suc i \<le> j \<and> j < r \<longrightarrow> \<not> choiceMatches P field v j))"
    proof
      assume h: "i \<le> r \<and> r < i + Suc k \<and> choiceMatches P field v r \<and>
        (\<forall>j. i \<le> j \<and> j < r \<longrightarrow> \<not> choiceMatches P field v j)"
      with False have "r \<noteq> i" by auto
      with h show "Suc i \<le> r \<and> r < Suc i + k \<and> choiceMatches P field v r \<and>
        (\<forall>j. Suc i \<le> j \<and> j < r \<longrightarrow> \<not> choiceMatches P field v j)" by auto
    next
      assume h: "Suc i \<le> r \<and> r < Suc i + k \<and> choiceMatches P field v r \<and>
        (\<forall>j. Suc i \<le> j \<and> j < r \<longrightarrow> \<not> choiceMatches P field v j)"
      have "\<not> choiceMatches P field v j" if "i \<le> j \<and> j < r" for j
      proof (cases "j = i")
        case True
        with False show ?thesis by simp
      next
        case False
        with that h show ?thesis by auto
      qed
      with h show "i \<le> r \<and> r < i + Suc k \<and> choiceMatches P field v r \<and>
        (\<forall>j. i \<le> j \<and> j < r \<longrightarrow> \<not> choiceMatches P field v j)" by auto
    qed
    with False Suc.IH[of "Suc i"] show ?thesis by (simp only: findChoice_step) auto
  qed
qed

text \<open>
  C7. When the identifier resolves to a choice field, \<open>setFieldValue\<close> selects the first
  index whose option is present and converts to exactly the value, and marks the session
  modified and its cache invalid; when no option matches it returns false, records
  \<open>Value not in choice options\<close>, and leaves the document as it was.
\<close>

theorem setFieldValue_choice:
  assumes "findFormField P s nm = Some (Some a, s1)"
    and "deref s1 a = Some field"
    and "getType field = formChoice"
  shows "(i < getNumChoices field \<and> choiceMatches P field v i \<and>
          (\<forall>j<i. \<not> choiceMatches P field v j)
          \<longrightarrow> setFieldValue P s nm v =
                Some (True, (store s1 a (select i field))\<lparr>fieldsCached' := False, modified' := True\<rparr>)) \<and>
         ((\<forall>j<getNumChoices field. \<not> choiceMatches P field v j)
          \<longrightarrow> setFieldValue P s nm v =
                Some (False, s1\<lparr>lastError' := ''Value not in choice options: '' @ v\<rparr>) \<and>
              doc' (s1\<lparr>lastError' := ''Value not in choice options: '' @ v\<rparr>) = doc' s)"
proof -
  have again: "findFormField P s1 nm = Some (Some a, s1)"
    by (rule findFormField_again[OF assms(1)])
  have sv: "setFieldValue P s nm v = setChoiceFieldValue P s1 nm v"
    using assms by (simp add: setFieldValue_def)
  have sc: "setChoiceFieldValue P s1 nm v =
      (case findChoice P field v 0 (getNumChoices field) of
         None \<Rightarrow> Some (False, s1\<lparr>lastError' := ''Value not in choice options: '' @ v\<rparr>)
       | Some selectedIdx \<Rightarrow>
           Some (True, (store s1 a (select selectedIdx field))\<lparr>fieldsCached' := False, modified' := True\<rparr>))"
    using again assms(2,3) by (simp add: setChoiceFieldValue_def)
  show ?thesis
  proof (intro conjI impI)
    assume "i < getNumChoices field \<and> choiceMatches P field v i \<and>
          (\<forall>j<i. \<not> choiceMatches P field v j)"
    then have "findChoice P field v 0 (getNumChoices field) = Some i"
      by (subst findChoice_Some) simp
    with sv sc show "setFieldValue P s nm v =
        Some (True, (store s1 a (select i field))\<lparr>fieldsCached' := False, modified' := True\<rparr>)"
      by simp
  next
    assume "\<forall>j<getNumChoices field. \<not> choiceMatches P field v j"
    then have "findChoice P field v 0 (getNumChoices field) = None"
      by (subst findChoice_None) simp
    with sv sc show "setFieldValue P s nm v =
        Some (False, s1\<lparr>lastError' := ''Value not in choice options: '' @ v\<rparr>)"
      by simp
  next
    show "doc' (s1\<lparr>lastError' := ''Value not in choice options: '' @ v\<rparr>) = doc' s"
      using findFormField_keeps(1)[OF assms(1)] by simp
  qed
qed

theorem setFieldValue_choice_witness:
  "map_option (\<lambda>(ok, s'). (ok, map_option fieldData (deref s' 3), modified' s', fieldsCached' s'))
     (setFieldValue examplePoppler formSession ''k'' ''green'')
     = Some (True, Some (ChoiceData [Some ''red'', None, Some ''green''] [2]), True, False) \<and>
   map_option (\<lambda>(ok, s'). (ok, lastError' s', map_option fieldData (deref s' 3)))
     (setFieldValue examplePoppler formSession ''k'' ''blue'')
     = Some (False, ''Value not in choice options: blue'',
             Some (ChoiceData [Some ''red'', None, Some ''green''] []))"
proof -
  from formSession_cached obtain s1 where c: "cacheFormFields examplePoppler formSession = Some s1"
    and d: "doc' s1 = Some formDoc" and k: "fieldMap' s1 ''k'' = Some 3"
    by blast
  let ?field = "sampleField (Some ''k'') (Some ''k'') [Some (sampleWidget formChoice None)] []
                  (ChoiceData [Some ''red'', None, Some ''green''] [])"
  have f: "findFormField examplePoppler formSession ''k'' = Some (Some 3, s1)"
    using c k by (simp add: findFormField_def)
  have n: "deref s1 3 = Some ?field"
    using d by (simp add: deref_def formDoc_def formNodes_def)
  have ty: "getType ?field = formChoice"
    by (simp add: sampleField_def)
  have m2: "2 < getNumChoices ?field \<and> choiceMatches examplePoppler ?field ''green'' 2 \<and>
      (\<forall>j<2. \<not> choiceMatches examplePoppler ?field ''green'' j)"
    by (simp add: choiceMatches_def sampleField_def examplePoppler_def less_Suc_eq eval_nat_numeral)
  have m0: "\<forall>j<getNumChoices ?field. \<not> choiceMatches examplePoppler ?field ''blue'' j"
    by (simp add: choiceMatches_def sampleField_def examplePoppler_def less_Suc_eq eval_nat_numeral)
  from setFieldValue_choice[OF f n ty, of 2 "''green''"] m2
  have r1: "setFieldValue examplePoppler formSession ''k'' ''green'' =
      Some (True, (store s1 3 (select 2 ?field))\<lparr>fieldsCached' := False, modified' := True\<rparr>)"
    by blast
  from setFieldValue_choice[OF f n ty, of _ "''blue''"] m0
  have r2: "setFieldValue examplePoppler formSession ''k'' ''blue'' =
      Some (False, s1\<lparr>lastError' := ''Value not in choice options: '' @ ''blue''\<rparr>)"
    by blast
  show ?thesis
    by (simp add: r1 r2 deref_store[OF n] n) (simp add: sampleField_def)
qed

subsection \<open>Button fields\<close>

lemma buildField_button:
  assumes "fieldData f = ButtonData bt st"
  shows "isChecked (buildField P f) =
           ((bt = formButtonCheck \<or> bt = formButtonRadio) \<and> getState P f)"
    and "type (buildField P f) =
           (if bt = formButtonCheck then Checkbox else if bt = formButtonRadio then Radio else Button)"
  using assms
  by (auto simp: buildField_def fieldNames_def fieldValue_def fieldGeometry_def Let_def
      newPdfFormField_def split: option.splits prod.splits)

text \<open>
  C5 (as the code has it). When the identifier resolves to a checkbox or a radio button,
  \<open>setFieldValue\<close> succeeds; with the empty string, \<open>0\<close> or \<open>false\<close> it sets the state of
  the node to \<open>Off\<close>, with any other value to the "on" state name of the first widget
  (\<open>Yes\<close> when the widget has none), and \<open>isChecked\<close> of the record built from the node is
  what \<open>getState\<close> of the object model answers for it: where the object model takes a
  button for on exactly when its state is not \<open>Off\<close>, and the "on" state name is not
  \<open>Off\<close>, \<open>isChecked\<close> is false for the three values and true for every other. When the
  identifier resolves to a push button, \<open>setFieldValue\<close> succeeds, changes nothing, and
  \<open>isChecked\<close> of the record is false.
\<close>

theorem setFieldValue_button:
  assumes "findFormField P s nm = Some (Some a, s1)"
    and "deref s1 a = Some field"
    and "fieldData field = ButtonData bt st"
  shows "(bt = formButtonCheck \<or> bt = formButtonRadio \<longrightarrow>
            (\<exists>s2 field'. setFieldValue P s nm v = Some (True, s2) \<and>
               deref s2 a = Some field' \<and>
               modified' s2 \<and>
               field' = setState (if v = [] \<or> v = ''0'' \<or> v = ''false'' then ''Off''
                                  else checkedState field) field \<and>
               getAppearanceState field' = (if v = [] \<or> v = ''0'' \<or> v = ''false'' then ''Off''
                                            else checkedState field) \<and>
               isChecked (buildField P field') = getState P field' \<and>
               ((\<forall>f. getState P f = (getAppearanceState f \<noteq> ''Off'')) \<and>
                checkedState field \<noteq> ''Off'' \<longrightarrow>
                  isChecked (buildField P field') = (v \<noteq> [] \<and> v \<noteq> ''0'' \<and> v \<noteq> ''false'')))) \<and>
         (bt = formButtonPush \<longrightarrow>
            setFieldValue P s nm v = Some (True, s1) \<and> deref s1 a = Some field \<and>
            isChecked (buildField P field) = False)"
proof -
  have again: "findFormField P s1 nm = Some (Some a, s1)"
    by (rule findFormField_again[OF assms(1)])
  have ty: "getType field = formButton" "getButtonType field = bt"
    using assms(3) by simp_all
  have sv: "setFieldValue P s nm v =
      setButtonFieldValue P s1 nm (v \<noteq> [] \<and> v \<noteq> ''0'' \<and> v \<noteq> ''false'')"
    using assms(1,2) ty by (simp add: setFieldValue_def del: getType.simps)
  show ?thesis
  proof (intro conjI impI)
    assume bt: "bt = formButtonCheck \<or> bt = formButtonRadio"
    let ?label = "if v = [] \<or> v = ''0'' \<or> v = ''false'' then ''Off'' else checkedState field"
    let ?s2 = "(store s1 a (setState ?label field))\<lparr>fieldsCached' := False, modified' := True\<rparr>"
    have "setFieldValue P s nm v = Some (True, ?s2)"
      using sv again assms(2) ty bt
      by (auto simp: setButtonFieldValue_def Let_def simp del: getType.simps getButtonType.simps setState.simps)
    moreover have "deref ?s2 a = Some (setState ?label field)"
      by (simp add: deref_store[OF assms(2)])
    moreover have "fieldData (setState ?label field) = ButtonData bt ?label"
      using assms(3) by simp
    then have "getAppearanceState (setState ?label field) = ?label"
      and "isChecked (buildField P (setState ?label field)) = getState P (setState ?label field)"
      using bt by (simp_all add: buildField_button del: setState.simps)
    moreover have "(\<forall>f. getState P f = (getAppearanceState f \<noteq> ''Off'')) \<and>
        checkedState field \<noteq> ''Off'' \<longrightarrow>
        isChecked (buildField P (setState ?label field)) = (v \<noteq> [] \<and> v \<noteq> ''0'' \<and> v \<noteq> ''false'')"
      using \<open>getAppearanceState (setState ?label field) = ?label\<close>
        \<open>isChecked (buildField P (setState ?label field)) = getState P (setState ?label field)\<close>
      by (simp del: setState.simps getAppearanceState.simps)
    ultimately show "\<exists>s2 field'. setFieldValue P s nm v = Some (True, s2) \<and>
               deref s2 a = Some field' \<and> modified' s2 \<and>
               field' = setState ?label field \<and>
               getAppearanceState field' = ?label \<and>
               isChecked (buildField P field') = getState P field' \<and>
               ((\<forall>f. getState P f = (getAppearanceState f \<noteq> ''Off'')) \<and>
                checkedState field \<noteq> ''Off'' \<longrightarrow>
                  isChecked (buildField P field') = (v \<noteq> [] \<and> v \<noteq> ''0'' \<and> v \<noteq> ''false''))"
      by simp
  next
    assume "bt = formButtonPush"
    then show "setFieldValue P s nm v = Some (True, s1)"
      using sv again assms(2) ty
      by (simp add: setButtonFieldValue_def del: getType.simps getButtonType.simps)
  next
    show "deref s1 a = Some field" by (rule assms(2))
  next
    assume "bt = formButtonPush"
    then show "isChecked (buildField P field) = False"
      using buildField_button(1)[OF assms(3), of P] by simp
  qed
qed

theorem setFieldValue_button_witness:
  "map_option (\<lambda>(ok, ff). (ok, map_option (\<lambda>r. (type r, isChecked r)) ff))
     (setThenGet examplePoppler formSession ''p.c'' ''yes'') = Some (True, Some (Checkbox, True)) \<and>
   map_option (\<lambda>(ok, ff). (ok, map_option (\<lambda>r. (type r, isChecked r)) ff))
     (setThenGet examplePoppler formSession ''p.c'' ''false'') = Some (True, Some (Checkbox, False)) \<and>
   map_option (\<lambda>(ok, s2). (ok, map_option getAppearanceState (deref s2 2),
                       map_option (\<lambda>f. isChecked (buildField examplePoppler f)) (deref s2 2)))
     (setFieldValue examplePoppler formSession ''p.c'' ''yes'') = Some (True, Some ''On'', Some True)"
proof -
  from formSession_cached obtain s1 where c: "cacheFormFields examplePoppler formSession = Some s1"
    and d: "doc' s1 = Some formDoc" and k: "fieldMap' s1 ''p.c'' = Some 2"
    by blast
  let ?field = "sampleField (Some ''c'') (Some ''p.c'') [Some (sampleWidget formButton (Some ''On''))] []
                  (ButtonData formButtonCheck ''Off'')"
  have f: "findFormField examplePoppler formSession ''p.c'' = Some (Some 2, s1)"
    using c k by (simp add: findFormField_def)
  have n: "deref s1 2 = Some ?field"
    using d by (simp add: deref_def formDoc_def formNodes_def)
  have fd: "fieldData ?field = ButtonData formButtonCheck ''Off''"
    by (simp add: sampleField_def)
  have cs: "checkedState ?field = ''On''"
    by (simp add: checkedState_def sampleField_def sampleWidget_def)
  have gs: "\<forall>f. getState examplePoppler f = (getAppearanceState f \<noteq> ''Off'')"
    by (simp add: examplePoppler_def)
  from setFieldValue_button[OF f n fd, of "''yes''"] gs cs
  obtain s2 where s2: "setFieldValue examplePoppler formSession ''p.c'' ''yes'' = Some (True, s2)"
    and a2: "map_option getAppearanceState (deref s2 2) = Some (checkedState ?field)"
    and i2: "map_option (\<lambda>f. isChecked (buildField examplePoppler f)) (deref s2 2) = Some True"
    by auto
  have g1: "map_option (\<lambda>(ok, ff). (ok, map_option (\<lambda>r. (type r, isChecked r)) ff))
     (setThenGet examplePoppler formSession ''p.c'' ''yes'') = Some (True, Some (Checkbox, True))"
    by (simp add: setThenGet_def setFieldValue_def setButtonFieldValue_def findFormField_def
        getFieldByName_def deref_def store_def checkedState_def example_defs flatten_defs)
  have g2: "map_option (\<lambda>(ok, ff). (ok, map_option (\<lambda>r. (type r, isChecked r)) ff))
     (setThenGet examplePoppler formSession ''p.c'' ''false'') = Some (True, Some (Checkbox, False))"
    by (simp add: setThenGet_def setFieldValue_def setButtonFieldValue_def findFormField_def
        getFieldByName_def deref_def store_def checkedState_def example_defs flatten_defs)
  from g1 g2 s2 a2 i2 cs show ?thesis by simp
qed

text \<open>
  The push button \<open>b\<close> of the form is a button field; setting it to \<open>1\<close> succeeds, and
  its record read back afterwards is not checked.
\<close>

theorem push_button_counterexample:
  "map_option (\<lambda>(ok, ff). (ok, map_option (\<lambda>r. (type r, isChecked r)) ff))
     (setThenGet examplePoppler formSession ''b'' ''1'') = Some (True, Some (Button, False)) \<and>
   map_option getType (formNodes 4) = Some formButton"
  by (simp add: setThenGet_def setFieldValue_def setButtonFieldValue_def findFormField_def
        getFieldByName_def deref_def store_def checkedState_def example_defs flatten_defs)

subsection \<open>Mutation and the cache\<close>

lemma indexField_apply:
  "indexField a ff m k =
     (if k = name ff \<and> name ff \<noteq> [] \<and> name ff \<noteq> fullName ff then Some a
      else if k = fullName ff \<and> fullName ff \<noteq> [] then Some a
      else m k)"
  by (auto simp: indexField_def Let_def)

lemma resolvesTo_step:
  assumes r: "resolvesTo P h ffs m k"
    and f: "h a = Some f" "length (widgets f) > 0"
  shows "resolvesTo P h (ffs @ [buildField P f]) (indexField a (buildField P f) m) k"
proof (cases "indexField a (buildField P f) m k = m k")
  case True
  with r show ?thesis
    by (auto simp: resolvesTo_def split: option.splits)
next
  case False
  then have "indexField a (buildField P f) m k = Some a"
    and "k = name (buildField P f) \<or> k = fullName (buildField P f)"
    by (auto simp: indexField_apply split: if_splits)
  with f show ?thesis
    by (auto simp: resolvesTo_def)
qed

lemma resolvesTo_new:
  assumes f: "h a = Some f" "length (widgets f) > 0"
    and k: "k \<noteq> []" "k = fullName (buildField P f) \<or> k = name (buildField P f)"
  shows "resolvesTo P h (ffs @ [buildField P f]) (indexField a (buildField P f) m) k"
proof -
  from k have "indexField a (buildField P f) m k = Some a"
    by (auto simp: indexField_apply)
  with f k show ?thesis
    by (auto simp: resolvesTo_def)
qed

lemma indexCovers_step:
  assumes c: "indexCovers P h ffs m" and f: "h a = Some f" "length (widgets f) > 0"
  shows "indexCovers P h (ffs @ [buildField P f]) (indexField a (buildField P f) m)"
proof -
  let ?ff = "buildField P f"
  let ?R = "resolvesTo P h (ffs @ [?ff]) (indexField a ?ff m)"
  have old: "(fullName ff = [] \<or> ?R (fullName ff)) \<and> (name ff = [] \<or> ?R (name ff))"
    if "ff \<in> set ffs" for ff
  proof -
    from c that have "(fullName ff = [] \<or> resolvesTo P h ffs m (fullName ff)) \<and>
        (name ff = [] \<or> resolvesTo P h ffs m (name ff))"
      by (simp add: indexCovers_def list_all_iff)
    then show ?thesis using resolvesTo_step[of P h ffs m _ a f] f by blast
  qed
  have new: "(fullName ?ff = [] \<or> ?R (fullName ?ff)) \<and> (name ?ff = [] \<or> ?R (name ?ff))"
    using resolvesTo_new[where h = h and a = a and f = f and k = "fullName ?ff" and P = P
        and ffs = ffs and m = m]
      resolvesTo_new[where h = h and a = a and f = f and k = "name ?ff" and P = P
        and ffs = ffs and m = m] f
    by blast
  from old new show ?thesis
    by (auto simp: indexCovers_def list_all_iff)
qed

lemma collect_covers:
  assumes "collectFieldsRecursive P h field acc = Some acc'"
    and "indexCovers P h (fst acc) (snd acc)"
  shows "indexCovers P h (fst acc') (snd acc')"
  by (rule collect_invariant[where I = "\<lambda>t. indexCovers P h (fst t) (snd t)", OF assms])
    (simp add: indexCovers_step)

text \<open>
  Where one cached record alone carries a key, the entry under that key resolves to a node
  with that very record.
\<close>

lemma indexCovers_unique:
  assumes c: "indexCovers P h ffs m" and ff: "ff \<in> set ffs"
    and k: "k \<noteq> []" "k = fullName ff \<or> k = name ff"
    and u: "\<And>g. g \<in> set ffs \<Longrightarrow> fullName g = k \<or> name g = k \<Longrightarrow> g = ff"
  shows "\<exists>a f. m k = Some a \<and> h a = Some f \<and> length (widgets f) > 0 \<and> buildField P f = ff"
proof -
  from c ff k have "resolvesTo P h ffs m k"
    by (auto simp: indexCovers_def list_all_iff)
  then obtain a f where "m k = Some a" "h a = Some f" "length (widgets f) > 0"
    "buildField P f \<in> set ffs" "fullName (buildField P f) = k \<or> name (buildField P f) = k"
    by (auto simp: resolvesTo_def split: option.splits)
  with u[of "buildField P f"] show ?thesis by blast
qed

text \<open>
  An index that sends every key to the container node 0 of the form does not cover the
  record of its text field.
\<close>

lemma indexCovers_wrong_node:
  "\<not> indexCovers examplePoppler formNodes
       [buildField examplePoppler (sampleField (Some ''t'') (Some ''p.t'')
          [Some (sampleWidget formText None)] [] (TextData (Some ''old'')))]
       (\<lambda>k. Some 0)"
  by (simp add: indexCovers_def resolvesTo_def example_defs flatten_defs)

lemma cacheFormFields_consistent:
  assumes c: "cacheFormFields P s = Some s1" and inv: "cacheConsistent P s"
  shows "cacheConsistent P s1"
proof (cases "fieldsCached' s \<or> doc' s = None")
  case True
  with c have "s1 = s"
    by (auto simp: cacheFormFields_def split: if_splits option.splits)
  with inv show ?thesis by simp
next
  case False
  then obtain d where d: "doc' s = Some d" and nc: "\<not> fieldsCached' s" by auto
  show ?thesis
  proof (cases "getForm (s\<lparr>cachedFields' := []\<rparr>)")
    case None
    with c d nc have "s1 = s\<lparr>cachedFields' := [], fieldsCached' := True\<rparr>"
      by (simp add: cacheFormFields_def)
    then show ?thesis by (simp add: cacheConsistent_def indexCovers_def)
  next
    case (Some form)
    with c d nc obtain out m where
      fe: "forEach (\<lambda>field acc. if field \<noteq> None
                                 then collectFieldsRecursive P (nodes d) field acc
                                 else Some acc) form ([], fieldMap' s) = Some (out, m)"
      and s1: "s1 = s\<lparr>cachedFields' := out, fieldMap' := m, fieldsCached' := True\<rparr>"
      by (auto simp: cacheFormFields_def split: option.splits)
    have "(\<lambda>t. indexCovers P (nodes d) (fst t) (snd t)) (out, m)"
    proof (rule forEach_invariant[OF fe])
      show "indexCovers P (nodes d) (fst ([], fieldMap' s)) (snd ([], fieldMap' s))"
        by (simp add: indexCovers_def)
    next
      fix x t t'
      assume "(if x \<noteq> None then collectFieldsRecursive P (nodes d) x t else Some t) = Some t'"
        and "indexCovers P (nodes d) (fst t) (snd t)"
      then show "indexCovers P (nodes d) (fst t') (snd t')"
        using collect_covers[of P "nodes d" x t t'] by (auto split: if_splits)
    qed
    with s1 d show ?thesis by (simp add: cacheConsistent_def)
  qed
qed

lemma findFormField_consistent:
  "findFormField P s nm = Some (p, s1) \<Longrightarrow> cacheConsistent P s \<Longrightarrow> cacheConsistent P s1"
  using cacheFormFields_consistent[of P s s1]
  by (auto simp: findFormField_def split: option.splits)

lemma pushButtonSkipped_same: "pushButtonSkipped P s nm s' \<Longrightarrow> \<exists>a. findFormField P s nm = Some (Some a, s')"
  by (auto simp: pushButtonSkipped_def split: option.splits)

lemma pushButtonSkipped_lift:
  assumes "findFormField P s nm = Some (p, s1)" and "pushButtonSkipped P s1 nm s'"
  shows "pushButtonSkipped P s nm s'"
proof -
  from findFormField_again[OF assms(1)] have "findFormField P s1 nm = Some (p, s1)" .
  with assms(2) have "s' = s1" and "pushButtonSkipped P s1 nm s1"
    by (auto simp: pushButtonSkipped_def split: option.splits)
  with assms(1) \<open>findFormField P s1 nm = Some (p, s1)\<close> show ?thesis
    by (auto simp: pushButtonSkipped_def split: option.splits)
qed

lemma setTextFieldValue_outcome:
  "setTextFieldValue P s nm v = Some (ok, s') \<Longrightarrow> setterOutcome P s nm ok s'"
  unfolding setTextFieldValue_def setterOutcome_def
  by (auto simp: deref_def dest: findFormField_keeps(1) split: option.splits if_splits simp del: getType.simps)

lemma setChoiceFieldValue_outcome:
  "setChoiceFieldValue P s nm v = Some (ok, s') \<Longrightarrow> setterOutcome P s nm ok s'"
  unfolding setChoiceFieldValue_def setterOutcome_def
  by (auto simp: deref_def dest: findFormField_keeps(1) split: option.splits if_splits
      simp del: getType.simps getNumChoices.simps)

lemma setButtonFieldValue_outcome:
  "setButtonFieldValue P s nm c = Some (ok, s') \<Longrightarrow> setterOutcome P s nm ok s'"
  unfolding setButtonFieldValue_def setterOutcome_def
  by (auto simp: deref_def pushButtonSkipped_def Let_def dest: findFormField_keeps(1)
      split: option.splits if_splits
      simp del: getType.simps getButtonType.simps setState.simps)

lemma setterOutcome_lift:
  assumes "findFormField P s nm = Some (p, s1)" and "setterOutcome P s1 nm ok s'"
  shows "setterOutcome P s nm ok s'"
proof -
  from findFormField_again[OF assms(1)] have again: "findFormField P s1 nm = Some (p, s1)" .
  show ?thesis
  proof (cases ok)
    case True
    with assms(2) again have "(modified' s' \<and> \<not> fieldsCached' s') \<or> pushButtonSkipped P s1 nm s'"
      by (auto simp: setterOutcome_def)
    with pushButtonSkipped_lift[OF assms(1)] True assms(1)
    show ?thesis by (auto simp: setterOutcome_def)
  next
    case False
    with assms(2) again assms(1) show ?thesis by (auto simp: setterOutcome_def)
  qed
qed

lemma setFieldValue_outcome:
  assumes "setFieldValue P s nm v = Some (ok, s')"
  shows "setterOutcome P s nm ok s'"
proof -
  from assms obtain p s1 where f: "findFormField P s nm = Some (p, s1)"
    by (auto simp: setFieldValue_def split: option.splits)
  show ?thesis
  proof (cases p)
    case None
    with assms f show ?thesis by (auto simp: setFieldValue_def setterOutcome_def)
  next
    case (Some a)
    with assms f obtain field where d: "deref s1 a = Some field"
      by (auto simp: setFieldValue_def split: option.splits)
    show ?thesis
    proof (cases "getType field")
      case formText
      with assms f Some d have "setTextFieldValue P s1 nm v = Some (ok, s')"
        by (simp add: setFieldValue_def del: getType.simps)
      from setterOutcome_lift[OF f setTextFieldValue_outcome[OF this]] show ?thesis .
    next
      case formChoice
      with assms f Some d have "setChoiceFieldValue P s1 nm v = Some (ok, s')"
        by (simp add: setFieldValue_def del: getType.simps)
      from setterOutcome_lift[OF f setChoiceFieldValue_outcome[OF this]] show ?thesis .
    next
      case formButton
      with assms f Some d have "setButtonFieldValue P s1 nm
          (v \<noteq> [] \<and> v \<noteq> ''0'' \<and> v \<noteq> ''false'') = Some (ok, s')"
        by (simp add: setFieldValue_def del: getType.simps)
      from setterOutcome_lift[OF f setButtonFieldValue_outcome[OF this]] show ?thesis .
    next
      case formSignature
      with assms f Some d show ?thesis
        by (auto simp: setFieldValue_def setterOutcome_def simp del: getType.simps)
    next
      case formUndef
      with assms f Some d show ?thesis
        by (auto simp: setFieldValue_def setterOutcome_def simp del: getType.simps)
    qed
  qed
qed

lemma setterOutcome_consistent:
  assumes "setterOutcome P s nm ok s'" and "cacheConsistent P s"
  shows "cacheConsistent P s'"
proof -
  from assms(1) obtain p s1 where f: "findFormField P s nm = Some (p, s1)"
    and o: "if ok then (modified' s' \<and> \<not> fieldsCached' s') \<or> pushButtonSkipped P s nm s'
         else s' = s1\<lparr>lastError' := lastError' s'\<rparr>"
    by (auto simp: setterOutcome_def)
  have c1: "cacheConsistent P s1" by (rule findFormField_consistent[OF f assms(2)])
  show ?thesis
  proof (cases ok)
    case True
    with o consider "\<not> fieldsCached' s'" | "pushButtonSkipped P s nm s'" by auto
    then show ?thesis
    proof cases
      case 1
      then show ?thesis by (simp add: cacheConsistent_def)
    next
      case 2
      with pushButtonSkipped_same[OF 2] f c1 show ?thesis by simp
    qed
  next
    case False
    with o have "s' = s1\<lparr>lastError' := lastError' s'\<rparr>" by simp
    then have "fieldsCached' s' = fieldsCached' s1" "cachedFields' s' = cachedFields' s1"
      "fieldMap' s' = fieldMap' s1" "doc' s' = doc' s1"
      by (metis Impl.select_convs(6) Impl.surjective Impl.update_convs(3),
          metis Impl.select_convs(4) Impl.surjective Impl.update_convs(3),
          metis Impl.select_convs(5) Impl.surjective Impl.update_convs(3),
          metis Impl.select_convs(1) Impl.surjective Impl.update_convs(3))
    with c1 show ?thesis by (simp add: cacheConsistent_def)
  qed
qed

lemma setFieldValuesLoop_consistent:
  "setFieldValuesLoop P b s ps = Some (ok, s') \<Longrightarrow> cacheConsistent P s \<Longrightarrow> cacheConsistent P s'"
proof (induction ps arbitrary: b s)
  case Nil
  then show ?case by simp
next
  case (Cons pr ps)
  obtain nm v where pr: "pr = (nm, v)" by (cases pr)
  with Cons.prems(1) obtain ok1 s1 where st: "setFieldValue P s nm v = Some (ok1, s1)"
    and r: "setFieldValuesLoop P (if \<not> ok1 then False else b) s1 ps = Some (ok, s')"
    by (auto split: option.splits)
  from setterOutcome_consistent[OF setFieldValue_outcome[OF st] Cons.prems(2)]
  have "cacheConsistent P s1" .
  from Cons.IH[OF r this] show ?case .
qed

text \<open>
  C2 (as the code has it). A call of \<open>setFieldValue\<close> or \<open>setCheckboxValue\<close> that returns
  success, on any session and so for each pair of \<open>setFieldValues\<close>, has set the dirty flag
  and cleared the one flag that marks cache and index valid, unless the identifier resolved
  to a push button, which is skipped. Whenever the cache is marked valid, the index entry
  under each full name and each name of a cached record resolves to a node of the loaded
  document that has a widget, whose record is in the cache and carries that name: this
  holds of a new session and after every successful load, and is kept by the rebuild, by
  the setters and by the batch.
\<close>

theorem mutation_invalidates_cache:
  "(setFieldValue P s nm v = Some (True, s') \<longrightarrow>
      (modified' s' \<and> \<not> fieldsCached' s') \<or> pushButtonSkipped P s nm s') \<and>
   (setCheckboxValue P s nm c = Some (True, s') \<longrightarrow>
      (modified' s' \<and> \<not> fieldsCached' s') \<or> pushButtonSkipped P s nm s') \<and>
   (cacheConsistent P s \<longrightarrow>
      (cacheFormFields P s = Some s1 \<longrightarrow> cacheConsistent P s1) \<and>
      (setFieldValue P s nm v = Some (ok, s') \<longrightarrow> cacheConsistent P s') \<and>
      (setCheckboxValue P s nm c = Some (ok, s') \<longrightarrow> cacheConsistent P s') \<and>
      (setFieldValues P s ps = Some (ok, s') \<longrightarrow> cacheConsistent P s')) \<and>
   (loadFromMemory P s data pw = (True, s2) \<longrightarrow> cacheConsistent P s2) \<and>
   cacheConsistent P newImpl"
proof (intro conjI impI)
  assume "setFieldValue P s nm v = Some (True, s')"
  from setFieldValue_outcome[OF this]
  show "(modified' s' \<and> \<not> fieldsCached' s') \<or> pushButtonSkipped P s nm s'"
    by (auto simp: setterOutcome_def)
next
  assume "setCheckboxValue P s nm c = Some (True, s')"
  then have "setButtonFieldValue P s nm c = Some (True, s')" by (simp add: setCheckboxValue_def)
  from setButtonFieldValue_outcome[OF this]
  show "(modified' s' \<and> \<not> fieldsCached' s') \<or> pushButtonSkipped P s nm s'"
    by (auto simp: setterOutcome_def)
next
  assume "cacheConsistent P s" "cacheFormFields P s = Some s1"
  then show "cacheConsistent P s1" using cacheFormFields_consistent by blast
next
  assume "cacheConsistent P s" "setFieldValue P s nm v = Some (ok, s')"
  then show "cacheConsistent P s'"
    using setterOutcome_consistent[OF setFieldValue_outcome] by blast
next
  assume "cacheConsistent P s" "setCheckboxValue P s nm c = Some (ok, s')"
  then show "cacheConsistent P s'"
    using setterOutcome_consistent[OF setButtonFieldValue_outcome, of P s nm c ok s']
    by (simp add: setCheckboxValue_def)
next
  assume "cacheConsistent P s" "setFieldValues P s ps = Some (ok, s')"
  then show "cacheConsistent P s'"
    using setFieldValuesLoop_consistent[of P True s ps ok s'] by (simp add: setFieldValues_def)
next
  assume "loadFromMemory P s data pw = (True, s2)"
  then have "\<not> fieldsCached' s2"
    by (auto simp: loadFromMemory_def Let_def split: sum.splits)
  then show "cacheConsistent P s2" by (simp add: cacheConsistent_def)
next
  show "cacheConsistent P newImpl" by (simp add: cacheConsistent_def newImpl_def)
qed

theorem mutation_invalidates_witness:
  "cacheConsistent examplePoppler formSession \<and>
   (\<exists>s'. setFieldValue examplePoppler formSession ''p.t'' ''X'' = Some (True, s') \<and>
         modified' s' \<and> \<not> fieldsCached' s' \<and> cacheConsistent examplePoppler s') \<and>
   (\<exists>s1. cacheFormFields examplePoppler formSession = Some s1 \<and>
         fieldsCached' s1 \<and> cacheConsistent examplePoppler s1 \<and>
         map (fieldMap' s1) [''p.t'', ''t'', ''p.c'', ''c'', ''k'', ''b'']
           = [Some 1, Some 1, Some 2, Some 2, Some 3, Some 4]) \<and>
   (\<exists>s2. loadFromMemory examplePoppler newImpl [1] '''' = (True, s2) \<and>
         cacheConsistent examplePoppler s2)"
proof -
  have c0: "cacheConsistent examplePoppler formSession"
    by (simp add: cacheConsistent_def formSession_def newImpl_def)
  obtain s' where s': "setFieldValue examplePoppler formSession ''p.t'' ''X'' = Some (True, s')"
    and np: "\<not> pushButtonSkipped examplePoppler formSession ''p.t'' s'"
    by (simp add: pushButtonSkipped_def setter_defs example_defs flatten_defs)
  obtain s1 where s1: "cacheFormFields examplePoppler formSession = Some s1" and f1: "fieldsCached' s1"
    and m1: "map (fieldMap' s1) [''p.t'', ''t'', ''p.c'', ''c'', ''k'', ''b'']
           = [Some 1, Some 1, Some 2, Some 2, Some 3, Some 4]"
    by (simp add: example_defs flatten_defs)
  obtain s2 where s2: "loadFromMemory examplePoppler newImpl [1] '''' = (True, s2)"
    by (simp add: loadFromMemory_def examplePoppler_def)
  note t = mutation_invalidates_cache[where P = examplePoppler and s = formSession
      and nm = "''p.t''" and v = "''X''" and s' = s' and ok = True and ?s1.0 = s1]
  note u = mutation_invalidates_cache[where P = examplePoppler and s = newImpl
      and data = "[1]" and pw = "[]" and ?s2.0 = s2]
  from t s' np have a1: "modified' s' \<and> \<not> fieldsCached' s'" by blast
  from t c0 s' have a2: "cacheConsistent examplePoppler s'" by blast
  from t c0 s1 have a3: "cacheConsistent examplePoppler s1" by blast
  from u s2 have a4: "cacheConsistent examplePoppler s2" by blast
  have "\<exists>s'. setFieldValue examplePoppler formSession ''p.t'' ''X'' = Some (True, s') \<and>
         modified' s' \<and> \<not> fieldsCached' s' \<and> cacheConsistent examplePoppler s'"
    using s' a1 a2 by blast
  moreover have "\<exists>s1. cacheFormFields examplePoppler formSession = Some s1 \<and>
         fieldsCached' s1 \<and> cacheConsistent examplePoppler s1 \<and>
         map (fieldMap' s1) [''p.t'', ''t'', ''p.c'', ''c'', ''k'', ''b'']
           = [Some 1, Some 1, Some 2, Some 2, Some 3, Some 4]"
    using s1 f1 a3 m1 by (intro exI[of _ s1]) simp
  moreover have "\<exists>s2. loadFromMemory examplePoppler newImpl [1] '''' = (True, s2) \<and>
         cacheConsistent examplePoppler s2"
    using s2 a4 by blast
  ultimately show ?thesis using c0 by blast
qed

text \<open>
  A load the parser rejects is not among these: it leaves the flag, the cached records and
  the index of the document it has just destroyed, and the session is not consistent.
\<close>

lemma rejected_reload_inconsistent:
  "map_option (\<lambda>s. (doc' s = None, fieldsCached' s, map fullName (cachedFields' s),
                    fieldMap' s ''p.t'', cacheConsistent examplePoppler s))
     rejectedReloadSession
     = Some (True, True, [''p.t'', ''p.c'', ''k'', ''b''], Some 1, False)"
  by (simp add: rejectedReloadSession_def loadFromMemory_def getFormFields_def
      cacheConsistent_def indexCovers_def resolvesTo_def example_defs flatten_defs)

text \<open>
  Setting the push button \<open>b\<close> of the form succeeds through either setter, and leaves the
  session not modified and its cache marked valid.
\<close>

theorem push_button_not_dirty_counterexample:
  "map_option (\<lambda>(ok, s'). (ok, modified' s', fieldsCached' s'))
     (setFieldValue examplePoppler formSession ''b'' ''1'') = Some (True, False, True) \<and>
   map_option (\<lambda>(ok, s'). (ok, modified' s', fieldsCached' s'))
     (setCheckboxValue examplePoppler formSession ''b'' True) = Some (True, False, True)"
  by (simp add: setter_defs example_defs flatten_defs)

subsection \<open>The batch\<close>

lemma loop_attemptAll:
  "setFieldValuesLoop P b s ps =
     map_option (\<lambda>(oks, s'). (b \<and> list_all (\<lambda>ok. ok) oks, s')) (attemptAll P s ps)"
proof (induction ps arbitrary: b s)
  case Nil
  show ?case by simp
next
  case (Cons pr ps)
  obtain nm v where pr: "pr = (nm, v)" by (cases pr)
  show ?case
  proof (cases "setFieldValue P s nm v")
    case None
    with pr show ?thesis by simp
  next
    case (Some r)
    obtain ok s1 where r: "r = (ok, s1)" by (cases r)
    show ?thesis
      using pr Some r Cons.IH[of "if \<not> ok then False else b" s1]
      by (cases "attemptAll P s1 ps") auto
  qed
qed

lemma attemptAll_length:
  "attemptAll P s ps = Some (oks, s') \<Longrightarrow> length oks = length ps"
proof (induction ps arbitrary: s oks)
  case Nil
  then show ?case by simp
next
  case (Cons pr ps)
  obtain nm v where pr: "pr = (nm, v)" by (cases pr)
  from Cons.prems pr obtain ok s1 oks1 where "setFieldValue P s nm v = Some (ok, s1)"
    and r: "attemptAll P s1 ps = Some (oks1, s')" and o: "oks = ok # oks1"
    by (auto split: option.splits)
  from Cons.IH[OF r] o show ?case by simp
qed

lemma setFieldValue_failure_keeps_doc:
  assumes "setFieldValue P s nm v = Some (False, s')"
  shows "doc' s' = doc' s"
proof -
  from setFieldValue_outcome[OF assms] obtain p s1 where f: "findFormField P s nm = Some (p, s1)"
    and e: "s' = s1\<lparr>lastError' := lastError' s'\<rparr>"
    by (auto simp: setterOutcome_def)
  from e have "doc' s' = doc' s1"
    by (metis Impl.select_convs(1) Impl.surjective Impl.update_convs(3))
  with findFormField_keeps(1)[OF f] show ?thesis by simp
qed

text \<open>
  C6. \<open>setFieldValues\<close> applies \<open>setFieldValue\<close> to every pair in the given order, each on
  the session the pair before it left, whether or not that pair failed; it returns true
  exactly when every pair succeeded; and a failing pair leaves the document as it was, so
  what the pairs before it applied stays applied.
\<close>

theorem setFieldValues_attempts_all:
  "setFieldValues P s values =
     map_option (\<lambda>(oks, s'). (list_all (\<lambda>ok. ok) oks, s')) (attemptAll P s values) \<and>
   (attemptAll P s values = Some (oks, s2) \<longrightarrow> length oks = length values) \<and>
   (setFieldValue P s nm v = Some (False, s') \<longrightarrow> doc' s' = doc' s)"
  using loop_attemptAll[of P True s "values"] attemptAll_length[of P s "values" oks s2]
    setFieldValue_failure_keeps_doc[of P s nm v s']
  by (simp add: setFieldValues_def)

theorem setFieldValues_witness:
  "map_option fst (attemptAll examplePoppler formSession [(''p.t'', ''X''), (''missing'', ''Y'')])
     = Some [True, False] \<and>
   map_option (\<lambda>(ok, s'). (ok, map_option (\<lambda>(ff, s2). map_option value' ff)
                                   (getFieldByName examplePoppler s' ''p.t'')))
     (setFieldValues examplePoppler formSession [(''p.t'', ''X''), (''missing'', ''Y'')])
     = Some (False, Some (Some ''X'')) \<and>
   map_option (\<lambda>(ok, s'). (ok, map_option (\<lambda>(ff, s2). map_option value' ff)
                                   (getFieldByName examplePoppler s' ''p.t'')))
     (setFieldValues examplePoppler formSession [(''missing'', ''Y''), (''p.t'', ''X'')])
     = Some (False, Some (Some ''X''))"
proof -
  obtain s2 where a: "attemptAll examplePoppler formSession [(''p.t'', ''X''), (''missing'', ''Y'')]
      = Some ([True, False], s2)"
    and g: "map_option (\<lambda>(ff, s3). map_option value' ff) (getFieldByName examplePoppler s2 ''p.t'')
      = Some (Some ''X'')"
    by (simp add: getFieldByName_def setter_defs example_defs flatten_defs)
  obtain s3 where b: "attemptAll examplePoppler formSession [(''missing'', ''Y''), (''p.t'', ''X'')]
      = Some ([False, True], s3)"
    and h: "map_option (\<lambda>(ff, s3). map_option value' ff) (getFieldByName examplePoppler s3 ''p.t'')
      = Some (Some ''X'')"
    by (simp add: getFieldByName_def setter_defs example_defs flatten_defs)
  from setFieldValues_attempts_all[of examplePoppler formSession "[(''p.t'', ''X''), (''missing'', ''Y'')]"] a
  have r1: "setFieldValues examplePoppler formSession [(''p.t'', ''X''), (''missing'', ''Y'')]
      = Some (False, s2)" by simp
  from setFieldValues_attempts_all[of examplePoppler formSession "[(''missing'', ''Y''), (''p.t'', ''X'')]"] b
  have r2: "setFieldValues examplePoppler formSession [(''missing'', ''Y''), (''p.t'', ''X'')]
      = Some (False, s3)" by simp
  from a g r1 r2 h show ?thesis by simp
qed

subsection \<open>The session without a document\<close>

lemma findFormField_empty: "doc' s = None \<Longrightarrow> findFormField P s nm = Some (fieldMap' s nm, s)"
  by (simp add: findFormField_def cacheFormFields_empty)

lemma deref_empty: "doc' s = None \<Longrightarrow> deref s a = None"
  by (simp add: deref_def)

lemma setButtonFieldValue_empty:
  assumes "doc' s = None"
  shows "setButtonFieldValue P s nm c =
     (case fieldMap' s nm of
        None \<Rightarrow> Some (False, s\<lparr>lastError' := ''Field not found: '' @ nm\<rparr>)
      | Some a \<Rightarrow> None)"
  using assms
  by (simp add: setButtonFieldValue_def findFormField_empty deref_empty split: option.splits)

lemma setFieldValue_empty:
  assumes "doc' s = None"
  shows "setFieldValue P s nm v =
     (case fieldMap' s nm of
        None \<Rightarrow> Some (False, s\<lparr>lastError' := ''Field not found: '' @ nm\<rparr>)
      | Some a \<Rightarrow> None)"
  using assms
  by (simp add: setFieldValue_def findFormField_empty deref_empty split: option.splits)

lemma setFieldValuesLoop_empty:
  assumes "doc' s = None" and "list_all (\<lambda>(nm, v). fieldMap' s nm = None) ps"
  shows "\<exists>s'. setFieldValuesLoop P b s ps = Some (b \<and> ps = [], s') \<and> doc' s' = None"
  using assms
proof (induction ps arbitrary: b s)
  case Nil
  then show ?case by simp
next
  case (Cons pr ps)
  obtain nm v where pr: "pr = (nm, v)" by (cases pr)
  let ?s1 = "s\<lparr>lastError' := ''Field not found: '' @ nm\<rparr>"
  from Cons.prems pr have st: "setFieldValue P s nm v = Some (False, ?s1)"
    by (simp add: setFieldValue_empty)
  have "doc' ?s1 = None" "list_all (\<lambda>(nm, v). fieldMap' ?s1 nm = None) ps"
    using Cons.prems by simp_all
  from Cons.IH[OF this, of False] obtain s' where
    "setFieldValuesLoop P False ?s1 ps = Some (False, s')" "doc' s' = None"
    by auto
  with st pr show ?case by simp
qed

text \<open>
  C4 (as the code has it). In a session without a document, a setter whose identifier
  the index does not hold returns false and records \<open>Field not found\<close> with the
  identifier, and a batch of at least one pair of such identifiers returns false;
  \<open>flattenForm\<close> and \<open>saveToMemory\<close> fail and record \<open>No document loaded\<close>;
  \<open>renderPageToPng\<close> returns the empty result, and the page count, the title, the author
  and the form test return 0, the empty text and false, and record no error; where the cache
  holds no record, the listing is empty and no field is found by name, and no error is
  recorded.
\<close>

theorem empty_session_operations:
  assumes "doc' s = None"
  shows "(fieldMap' s nm = None \<longrightarrow>
            setFieldValue P s nm v = Some (False, s\<lparr>lastError' := ''Field not found: '' @ nm\<rparr>) \<and>
            setCheckboxValue P s nm c = Some (False, s\<lparr>lastError' := ''Field not found: '' @ nm\<rparr>)) \<and>
         (pairs \<noteq> [] \<and> list_all (\<lambda>(nm, v). fieldMap' s nm = None) pairs \<longrightarrow>
            (\<exists>s'. setFieldValues P s pairs = Some (False, s') \<and> doc' s' = None)) \<and>
         flattenForm s = (False, s\<lparr>lastError' := ''No document loaded''\<rparr>) \<and>
         saveToMemory P s = ([], s\<lparr>lastError' := ''No document loaded''\<rparr>) \<and>
         renderPageToPng P s page dpi = ([], s) \<and>
         getPageCount s = 0 \<and> getTitle P s = [] \<and> getAuthor P s = [] \<and> \<not> hasAcroForm s \<and>
         (cachedFields' s = [] \<longrightarrow>
            getFormFields P s = Some ([], s) \<and> getFieldByName P s nm = Some (None, s))"
proof -
  have "fieldMap' s nm = None \<longrightarrow>
            setFieldValue P s nm v = Some (False, s\<lparr>lastError' := ''Field not found: '' @ nm\<rparr>) \<and>
            setCheckboxValue P s nm c = Some (False, s\<lparr>lastError' := ''Field not found: '' @ nm\<rparr>)"
    using setFieldValue_empty[OF assms, of P nm v] setButtonFieldValue_empty[OF assms, of P nm c]
    by (simp add: setCheckboxValue_def)
  moreover have "pairs \<noteq> [] \<and> list_all (\<lambda>(nm, v). fieldMap' s nm = None) pairs \<longrightarrow>
            (\<exists>s'. setFieldValues P s pairs = Some (False, s') \<and> doc' s' = None)"
    using setFieldValuesLoop_empty[OF assms, of pairs P True]
    by (auto simp: setFieldValues_def)
  moreover have "flattenForm s = (False, s\<lparr>lastError' := ''No document loaded''\<rparr>)"
    "saveToMemory P s = ([], s\<lparr>lastError' := ''No document loaded''\<rparr>)"
    "renderPageToPng P s page dpi = ([], s)"
    "getPageCount s = 0" "getTitle P s = []" "getAuthor P s = []" "\<not> hasAcroForm s"
    using assms
    by (simp_all add: flattenForm_def saveToMemory_def renderPageToPng_def getPageCount_def
        getTitle_def getAuthor_def getInfoString_def hasAcroForm_def getForm_def)
  moreover have "cachedFields' s = [] \<longrightarrow>
      getFormFields P s = Some ([], s) \<and> getFieldByName P s nm = Some (None, s)"
    using assms by (simp add: getFormFields_def getFieldByName_def cacheFormFields_empty)
  ultimately show ?thesis by blast
qed

theorem empty_session_witness:
  "doc' newImpl = None \<and>
   map_option (\<lambda>(ok, s'). (ok, lastError' s')) (setFieldValue examplePoppler newImpl ''f'' ''v'')
     = Some (False, ''Field not found: f'') \<and>
   map_option fst (setFieldValues examplePoppler newImpl [(''f'', ''v''), (''g'', ''w'')])
     = Some False \<and>
   map_prod (\<lambda>ok. ok) lastError' (flattenForm newImpl) = (False, ''No document loaded'') \<and>
   getPageCount newImpl = 0 \<and>
   map_option fst (getFormFields examplePoppler newImpl) = Some []"
proof -
  have e: "doc' newImpl = None" by (simp add: newImpl_def)
  have m: "fieldMap' newImpl ''f'' = None" by (simp add: newImpl_def)
  have l: "[(''f'', ''v''), (''g'', ''w'')] \<noteq> [] \<and>
      list_all (\<lambda>(nm, v). fieldMap' newImpl nm = None) [(''f'', ''v''), (''g'', ''w'')]"
    by (simp add: newImpl_def)
  have c: "cachedFields' newImpl = []" by (simp add: newImpl_def)
  note t = empty_session_operations[OF e, where nm = "''f''" and P = examplePoppler
      and v = "''v''" and c = True and page = 0 and dpi = 150
      and pairs = "[(''f'', ''v''), (''g'', ''w'')]"]
  from t m have "setFieldValue examplePoppler newImpl ''f'' ''v''
      = Some (False, newImpl\<lparr>lastError' := ''Field not found: '' @ ''f''\<rparr>)" by blast
  moreover from t l obtain s' where
    "setFieldValues examplePoppler newImpl [(''f'', ''v''), (''g'', ''w'')] = Some (False, s')"
    by blast
  moreover from t have "flattenForm newImpl = (False, newImpl\<lparr>lastError' := ''No document loaded''\<rparr>)"
    "getPageCount newImpl = 0" by blast+
  moreover from t c have "getFormFields examplePoppler newImpl = Some ([], newImpl)" by blast
  ultimately show ?thesis using e by simp
qed

text \<open>
  On a new session the setters record \<open>Field not found: f\<close>, not that no document is
  loaded, and the queries return their defaults and record nothing.
\<close>

theorem empty_session_error_counterexample:
  "map_option (\<lambda>(ok, s'). (ok, lastError' s')) (setFieldValue examplePoppler newImpl ''f'' ''v'')
     = Some (False, ''Field not found: f'') \<and>
   map_option (\<lambda>(ok, s'). (ok, lastError' s')) (setCheckboxValue examplePoppler newImpl ''f'' True)
     = Some (False, ''Field not found: f'') \<and>
   getPageCount newImpl = 0 \<and> getTitle examplePoppler newImpl = [] \<and>
   map_prod (\<lambda>png. png) lastError' (renderPageToPng examplePoppler newImpl 0 150) = ([], []) \<and>
   map_option (\<lambda>(ffs, s'). (ffs, lastError' s')) (getFormFields examplePoppler newImpl) = Some ([], [])"
  by (simp add: setFieldValue_def setCheckboxValue_def setButtonFieldValue_def findFormField_def
      cacheFormFields_def getPageCount_def getTitle_def getInfoString_def renderPageToPng_def
      getFormFields_def newImpl_def)

subsection \<open>Loading again\<close>

text \<open>
  A successful load installs the document and clears the two flags; the index and the
  cached records are as they were.
\<close>

lemma loadFromMemory_success:
  assumes "loadFromMemory P s data pw = (True, s')"
  shows "\<not> modified' s'" and "\<not> fieldsCached' s'" and "doc' s' \<noteq> None"
    and "fieldMap' s' = fieldMap' s" and "cachedFields' s' = cachedFields' s"
  using assms by (auto simp: loadFromMemory_def Let_def split: sum.splits)

text \<open>
  After a successful load the rebuilt cache holds records of nodes of the new document
  only.
\<close>

lemma reload_cache_fresh:
  assumes l: "loadFromMemory P s data pw = (True, s1)"
    and c: "cacheFormFields P s1 = Some s2"
  shows "\<exists>d. doc' s2 = Some d \<and>
           list_all (\<lambda>ff. \<exists>a f. nodes d a = Some f \<and> length (widgets f) > 0 \<and> ff = buildField P f)
             (cachedFields' s2)"
proof -
  from loadFromMemory_success[OF l] obtain d where d: "doc' s1 = Some d"
    and nc: "\<not> fieldsCached' s1" by auto
  let ?Q = "\<lambda>ff. \<exists>a f. nodes d a = Some f \<and> length (widgets f) > 0 \<and> ff = buildField P f"
  have d2: "doc' s2 = Some d" using cacheFormFields_keeps(1)[OF c] d by simp
  show ?thesis
  proof (cases "getForm (s1\<lparr>cachedFields' := []\<rparr>)")
    case None
    with c d nc have "cachedFields' s2 = []"
      by (auto simp: cacheFormFields_def)
    with d2 show ?thesis by simp
  next
    case (Some form)
    with c d nc obtain out m where
      fe: "forEach (\<lambda>field acc. if field \<noteq> None
                                 then collectFieldsRecursive P (nodes d) field acc
                                 else Some acc) form ([], fieldMap' s1) = Some (out, m)"
      and s2: "cachedFields' s2 = out"
      by (auto simp: cacheFormFields_def split: option.splits)
    have "(\<lambda>t. list_all ?Q (fst t)) (out, m)"
    proof (rule forEach_invariant[OF fe])
      show "list_all ?Q (fst ([], fieldMap' s1))" by simp
    next
      fix x t t'
      assume b: "(if x \<noteq> None then collectFieldsRecursive P (nodes d) x t else Some t) = Some t'"
        and i: "list_all ?Q (fst t)"
      show "list_all ?Q (fst t')"
      proof (cases x)
        case None
        with b i show ?thesis by simp
      next
        case (Some a)
        with b have "collectFieldsRecursive P (nodes d) x t = Some t'" by simp
        from collect_invariant[where I = "\<lambda>t. list_all ?Q (fst t)", OF this i]
        show ?thesis by fastforce
      qed
    qed
    with s2 d2 show ?thesis by simp
  qed
qed

text \<open>
  C3 (the code at the failing input). The form is loaded and listed, then the second
  document is loaded into the same session and listed. The dirty flag is clear and the
  cache holds the one record of the second document, but the index still resolves the names
  \<open>p.t\<close> and \<open>k\<close> of the form, to addresses at which the second document has no node, and
  \<open>setFieldValue\<close> on such a name reads through that pointer: it has no defined return.
\<close>

theorem reload_keeps_stale_index:
  "map_option (\<lambda>s. (modified' s, map fullName (cachedFields' s), fieldMap' s ''n'',
                    fieldMap' s ''p.t'', fieldMap' s ''k''))
     reloadedSession = Some (False, [''n''], Some 7, Some 1, Some 3) \<and>
   map_option (\<lambda>s. map_option fst (findFormField examplePoppler s ''p.t'')) reloadedSession
     = Some (Some (Some 1)) \<and>
   map_option (\<lambda>s. deref s 1) reloadedSession = Some None \<and>
   map_option (\<lambda>s. setFieldValue examplePoppler s ''p.t'' ''x'') reloadedSession = Some None"
  by (simp add: reloadedSession_def loadFromMemory_def getFormFields_def setFieldValue_def
      findFormField_def deref_def example_defs flatten_defs)

subsection \<open>Rendering\<close>

text \<open>
  C8. For every session and every resolution, \<open>renderPageToPng\<close> returns the empty result
  when no document is loaded, when the page index is negative, and when it is the page
  count or more; the session is left as it was.
\<close>

theorem renderPageToPng_out_of_range:
  "doc' s = None \<or> page < 0 \<or> page \<ge> getPageCount s \<Longrightarrow>
   renderPageToPng P s page dpi = ([], s)"
  by (auto simp: renderPageToPng_def getPageCount_def split: option.splits)

theorem renderPageToPng_out_of_range_witness:
  "renderPageToPng examplePoppler formSession (getPageCount formSession) 150 = ([], formSession) \<and>
   renderPageToPng examplePoppler formSession (- 1) 72 = ([], formSession) \<and>
   renderPageToPng examplePoppler newImpl 0 150 = ([], newImpl)"
  using renderPageToPng_out_of_range[of formSession "getPageCount formSession" examplePoppler 150]
    renderPageToPng_out_of_range[of formSession "- 1" examplePoppler 72]
    renderPageToPng_out_of_range[of newImpl 0 examplePoppler 150]
  by (simp add: newImpl_def)

subsection \<open>The type tags\<close>

text \<open>
  C10. For each of the seven tags \<open>t\<close> of \<open>FieldType\<close>,
  \<open>stringToFieldType (fieldTypeToString t) = t\<close>: the string exchanged across the public
  boundary reads back as the same field type.
\<close>

theorem fieldType_string_roundtrip: "stringToFieldType (fieldTypeToString t) = t"
  by (cases t) (simp_all add: stringToFieldType_def fieldTypeToString_def)

end
